theory Spec2Isabelle
  imports Complex_Main "HOL-Library.Sublist" "HOL-Library.AList"
begin

section \<open>Strings\<close>

text \<open>
  Strings are byte lists, the UTF-8 form of the JavaScript string; a byte below 128 is
  an ASCII character. \<open>String.prototype.toLowerCase\<close> maps a string of ASCII characters
  letter by letter, \<open>A\<close> to \<open>Z\<close> onto \<open>a\<close> to \<open>z\<close>. On a string with other characters it
  applies the Unicode case mapping with its special cases (U+212A KELVIN SIGN becomes
  \<open>k\<close>, U+0130 becomes \<open>i\<close> followed by U+0307). That mapping is not tabulated here: it is
  the parameter \<open>unicode\<close> of \<open>toLowerCase\<close> and of every function of the translator, and
  what is proved of the translator is proved for every function in its place.
  \<open>str_includes\<close> is \<open>String.prototype.includes\<close>: a contiguous substring test.
\<close>

definition toLowerCase_char :: "char \<Rightarrow> char" where
  "toLowerCase_char c =
     (let n = (of_char c :: nat) in if 65 \<le> n \<and> n \<le> 90 then char_of (n + 32) else c)"

definition ascii_toLowerCase :: "string \<Rightarrow> string" where
  "ascii_toLowerCase s = map toLowerCase_char s"

definition is_ascii :: "string \<Rightarrow> bool" where
  "is_ascii s = list_all (\<lambda>c. (of_char c :: nat) < 128) s"

definition toLowerCase :: "(string \<Rightarrow> string) \<Rightarrow> string \<Rightarrow> string" where
  "toLowerCase unicode s = (if is_ascii s then ascii_toLowerCase s else unicode s)"

fun str_includes :: "string \<Rightarrow> string \<Rightarrow> bool" where
  "str_includes [] sub = (sub = [])"
| "str_includes (c # s) sub = (prefix sub (c # s) \<or> str_includes s sub)"

text \<open>
  A value interpolated into a template literal, and a value used as a property key:
  \<open>undefined\<close> is written out as the word.
\<close>

definition template_string :: "string option \<Rightarrow> string" where
  "template_string v = (case v of None \<Rightarrow> ''undefined'' | Some s \<Rightarrow> s)"

section \<open>The graph model of the canvas\<close>

text \<open>
  \<open>N8nNodeData\<close> (components/N8nNode.tsx) with the fields the translator, the layout and
  the edit layer read. The type declares \<open>label\<close> a string, but the nodes are taken from
  the backend's JSON and from local storage without validation, so at run time the
  property can be missing: \<open>None\<close> is \<open>undefined\<close>. \<open>locked?\<close> is only ever tested for
  truthiness, so an absent flag is \<open>False\<close>. \<open>nodeType\<close> is a string at run time: the
  canvas stores kinds outside the declared union, and the translator has a default
  branch for them (a missing \<open>nodeType\<close> takes that branch like any other unlisted kind).
  The objects \<open>data\<close> and \<open>position\<close> of a node are taken to be present.
\<close>

record N8nNodeData =
  label :: "string option"
  nodeType :: string
  locked :: bool
  compliance_reason :: "string option"
  description :: "string option"

record XYPosition =
  xpos :: real
  ypos :: real

record Node =
  node_id :: string
  position :: XYPosition
  data :: N8nNodeData

record Edge =
  edge_id :: string
  source :: string
  target :: string

section \<open>The n8n translator (N8nWorkflowConverter)\<close>

datatype json =
    JString string
  | JNumber rat
  | JBool bool
  | JArray "json list"
  | JObject "(string \<times> json) list"

text \<open>\<open>name\<close> is \<open>node.data.label\<close>, copied as it is.\<close>

record N8nNode =
  n8n_id :: string
  n8n_name :: "string option"
  n8n_type :: string
  typeVersion :: nat
  n8n_position :: "real \<times> real"
  parameters :: "(string \<times> json) list"
  webhookId :: "string option"

record N8nConnectionTarget =
  conn_node :: "string option"
  conn_type :: string
  conn_index :: nat

record N8nConnection =
  main :: "N8nConnectionTarget list list"

text \<open>
  The connection map is a JavaScript object created by \<open>{}\<close>. \<open>own\<close> holds its own
  properties: they are the keys of the map, what \<open>Object.keys\<close> lists and
  \<open>JSON.stringify\<close> writes into the document. \<open>prototype\<close> is the object an assignment
  to the property \<open>__proto__\<close> has installed as its prototype (\<open>None\<close>: it still is
  \<open>Object.prototype\<close>).
\<close>

record N8nConnections =
  own :: "string \<rightharpoonup> N8nConnection"
  prototype :: "N8nConnection option"

record N8nWorkflow =
  wf_name :: string
  wf_nodes :: "N8nNode list"
  wf_connections :: N8nConnections
  wf_active :: bool
  wf_settings :: "(string \<times> json) list"
  wf_staticData :: "(string \<times> json) list"

text \<open>
  The one exception the converter can raise: calling \<open>toLowerCase\<close> on a label that is
  \<open>undefined\<close>.
\<close>

datatype js_error = TypeError

subsection \<open>N8N_NODE_MAPPINGS\<close>

definition trigger_webhook :: string where "trigger_webhook = ''n8n-nodes-base.webhook''"
definition trigger_schedule :: string where "trigger_schedule = ''n8n-nodes-base.cron''"
definition trigger_manual :: string where "trigger_manual = ''n8n-nodes-base.manualTrigger''"
definition action_http_request :: string where "action_http_request = ''n8n-nodes-base.httpRequest''"
definition action_email :: string where "action_email = ''n8n-nodes-base.emailSend''"
definition action_database :: string where "action_database = ''n8n-nodes-base.postgres''"
definition action_llm_call :: string where "action_llm_call = ''n8n-nodes-base.openAi''"
definition action_code :: string where "action_code = ''n8n-nodes-base.code''"
definition mapping_condition :: string where "mapping_condition = ''n8n-nodes-base.if''"
definition mapping_notification :: string where "mapping_notification = ''n8n-nodes-base.slack''"
definition default_function :: string where "default_function = ''n8n-nodes-base.function''"

subsection \<open>getN8nNodeType\<close>

text \<open>\<open>node.data.label.toLowerCase()\<close>.\<close>

definition label_toLowerCase :: "(string \<Rightarrow> string) \<Rightarrow> Node \<Rightarrow> js_error + string" where
  "label_toLowerCase unicode node =
     (case label (data node) of
        None \<Rightarrow> Inl TypeError
      | Some l \<Rightarrow> Inr (toLowerCase unicode l))"

definition getN8nNodeType :: "(string \<Rightarrow> string) \<Rightarrow> Node \<Rightarrow> js_error + string" where
  "getN8nNodeType unicode node =
     (if nodeType (data node) = ''trigger'' then
        (case label_toLowerCase unicode node of
           Inl e \<Rightarrow> Inl e
         | Inr l \<Rightarrow>
             Inr (if str_includes l ''webhook'' then trigger_webhook
                  else if str_includes l ''schedule'' then trigger_schedule
                  else trigger_manual))
      else if nodeType (data node) = ''action'' then
        (case label_toLowerCase unicode node of
           Inl e \<Rightarrow> Inl e
         | Inr l \<Rightarrow>
             Inr (if str_includes l ''llm'' \<or> str_includes l ''ai'' \<or> str_includes l ''gpt'' then action_llm_call
                  else if str_includes l ''email'' then action_email
                  else if str_includes l ''database'' \<or> str_includes l ''db'' then action_database
                  else if str_includes l ''http'' \<or> str_includes l ''api'' then action_http_request
                  else action_code))
      else if nodeType (data node) = ''condition'' then Inr mapping_condition
      else if nodeType (data node) = ''notification'' then Inr mapping_notification
      else Inr default_function)"

subsection \<open>Parameter templates\<close>

definition getTriggerParameters :: "(string \<Rightarrow> string) \<Rightarrow> Node \<Rightarrow> js_error + (string \<times> json) list" where
  "getTriggerParameters unicode node =
     (case label_toLowerCase unicode node of
        Inl e \<Rightarrow> Inl e
      | Inr l \<Rightarrow>
          Inr (if str_includes l ''webhook'' then
                 [(''httpMethod'', JString ''POST''),
                  (''path'', JString (''nodex-'' @ node_id node)),
                  (''responseMode'', JString ''onReceived'')]
               else if str_includes l ''schedule'' then
                 [(''rule'', JObject [(''interval'', JArray [JObject
                     [(''field'', JString ''cronExpression''),
                      (''cronExpression'', JString ''0 9 * * *'')]])])]
               else []))"

text \<open>\<open>a || b\<close> on strings: the empty string is falsy.\<close>

definition or_else :: "string \<Rightarrow> string \<Rightarrow> string" where
  "or_else a b = (if a = [] then b else a)"

definition getActionParameters :: "(string \<Rightarrow> string) \<Rightarrow> Node \<Rightarrow> js_error + (string \<times> json) list" where
  \<open>getActionParameters unicode node =
     (case label_toLowerCase unicode node of
        Inl e \<Rightarrow> Inl e
      | Inr l \<Rightarrow>
          (let d = (case description (data node) of None \<Rightarrow> [] | Some s \<Rightarrow> or_else s [])
           in
           Inr (if str_includes l ''llm'' \<or> str_includes l ''ai'' \<or> str_includes l ''gpt'' then
                  [(''resource'', JString ''chat''),
                   (''operation'', JString ''create''),
                   (''model'', JString ''gpt-4''),
                   (''messages'', JObject [(''values'', JArray [JObject
                      [(''role'', JString ''user''),
                       (''content'', JString (''='' @ or_else d ''Process the input data: {{ $json }}''))]])]),
                   (''options'', JObject [(''temperature'', JNumber (7 / 10)), (''maxTokens'', JNumber 1000)])]
                else if str_includes l ''email'' then
                  [(''fromEmail'', JString ''={{$node["Trigger"].json["email"] || "noreply@example.com"}}''),
                   (''toEmail'', JString ''={{$node["Trigger"].json["recipient"] || "user@example.com"}}''),
                   (''subject'', JString (''='' @ l)),
                   (''message'', JString (''='' @ or_else d ''Automated message from Nodex workflow'')),
                   (''format'', JString ''html'')]
                else if str_includes l ''database'' \<or> str_includes l ''db'' then
                  [(''operation'', JString ''insert''),
                   (''schema'', JString ''public''),
                   (''table'', JString ''workflow_data''),
                   (''columns'', JString ''data, timestamp''),
                   (''values'', JString ''={{$json}}, {{new Date().toISOString()}}'')]
                else if str_includes l ''http'' \<or> str_includes l ''api'' then
                  [(''method'', JString ''POST''),
                   (''url'', JString ''https://api.example.com/webhook''),
                   (''sendBody'', JBool True),
                   (''bodyContentType'', JString ''json''),
                   (''jsonBody'', JString ''={{$json}}''),
                   (''options'', JObject [])]
                else
                  [(''functionCode'', JString (''// '' @ l @ ''\<newline>// '' @ d @
                      ''\<newline>return items.map(item => {\<newline>  // Process item here\<newline>  return item.json;\<newline>});''))])))\<close>

definition getConditionParameters :: "Node \<Rightarrow> (string \<times> json) list" where
  "getConditionParameters node =
     [(''conditions'', JObject [(''boolean'', JArray [JObject
        [(''value1'', JString ''={{$json.status}}''),
         (''operation'', JString ''equal''),
         (''value2'', JString ''success'')]])])]"

text \<open>An absent label or description is interpolated into the template as \<open>undefined\<close>.\<close>

definition getValidationParameters :: "Node \<Rightarrow> (string \<times> json) list" where
  "getValidationParameters node =
     [(''functionCode'', JString (''// Validation: '' @ template_string (label (data node)) @ ''\<newline>// '' @
        template_string (description (data node)) @
        ''\<newline>\<newline>const errors = [];\<newline>\<newline>for (const item of items) {\<newline>  const data = item.json;\<newline>  \<newline>  // Add validation logic here\<newline>  if (!data.email) {\<newline>    errors.push('Email is required');\<newline>  }\<newline>  \<newline>  if (!data.name) {\<newline>    errors.push('Name is required');\<newline>  }\<newline>}\<newline>\<newline>if (errors.length > 0) {\<newline>  throw new Error('Validation failed: ' + errors.join(', '));\<newline>}\<newline>\<newline>return items;''))]"

definition getNodeParameters :: "(string \<Rightarrow> string) \<Rightarrow> Node \<Rightarrow> js_error + (string \<times> json) list" where
  "getNodeParameters unicode node =
     (if nodeType (data node) = ''trigger'' then getTriggerParameters unicode node
      else if nodeType (data node) = ''action'' then getActionParameters unicode node
      else if nodeType (data node) = ''condition'' then Inr (getConditionParameters node)
      else if nodeType (data node) = ''validation'' then Inr (getValidationParameters node)
      else Inr [(''functionCode'',
                 JString (''// '' @ template_string (label (data node)) @ ''\<newline>return items;''))])"

subsection \<open>convertNode and convertNodes\<close>

text \<open>
  \<open>generateWebhookId\<close> draws from \<open>Math.random\<close>; the drawn suffix is the argument
  \<open>r\<close>. The properties of the object literal are evaluated in the order written: the
  type, then the parameters. An object spread followed by property assignments is an
  update of the association list, key by key.
\<close>

definition generateWebhookId :: "string \<Rightarrow> string" where
  "generateWebhookId r = ''nodex-'' @ r"

definition convertNode :: "(string \<Rightarrow> string) \<Rightarrow> string \<Rightarrow> Node \<Rightarrow> js_error + N8nNode" where
  \<open>convertNode unicode r node =
     (case getN8nNodeType unicode node of
        Inl e \<Rightarrow> Inl e
      | Inr ty \<Rightarrow>
     (case getNodeParameters unicode node of
        Inl e \<Rightarrow> Inl e
      | Inr ps \<Rightarrow>
          (let baseNode = \<lparr> n8n_id = node_id node,
                            n8n_name = label (data node),
                            n8n_type = ty,
                            typeVersion = 1,
                            n8n_position = (xpos (position node), ypos (position node)),
                            parameters = ps,
                            webhookId = None \<rparr>
           in if nodeType (data node) = ''trigger'' then
                (case label_toLowerCase unicode node of
                   Inl e \<Rightarrow> Inl e
                 | Inr l \<Rightarrow>
                     if str_includes l ''webhook''
                     then Inr (baseNode \<lparr> webhookId := Some (generateWebhookId r),
                                parameters :=
                                  AList.update ''responseData''
                                      (JString ''{ "success": true, "message": "Workflow triggered" }'')
                                    (AList.update ''responseMode'' (JString ''onReceived'')
                                      (AList.update ''path'' (JString (''nodex-'' @ node_id node))
                                        (AList.update ''httpMethod'' (JString ''POST'')
                                          (parameters baseNode)))) \<rparr>)
                     else Inr baseNode)
              else Inr baseNode)))\<close>

text \<open>
  \<open>this.nodes.map\<close>: the nodes are converted in order and the first exception ends the
  call. The random suffix drawn for the node at index \<open>i\<close> is \<open>rnd i\<close>.
\<close>

fun convertNodes_from ::
  "(string \<Rightarrow> string) \<Rightarrow> (nat \<Rightarrow> string) \<Rightarrow> nat \<Rightarrow> Node list \<Rightarrow> js_error + N8nNode list" where
  "convertNodes_from unicode rnd i [] = Inr []"
| "convertNodes_from unicode rnd i (node # nodes) =
     (case convertNode unicode (rnd i) node of
        Inl e \<Rightarrow> Inl e
      | Inr n \<Rightarrow>
          (case convertNodes_from unicode rnd (Suc i) nodes of
             Inl e \<Rightarrow> Inl e
           | Inr ns \<Rightarrow> Inr (n # ns)))"

definition convertNodes ::
  "(string \<Rightarrow> string) \<Rightarrow> (nat \<Rightarrow> string) \<Rightarrow> Node list \<Rightarrow> js_error + N8nNode list" where
  "convertNodes unicode rnd nodes = convertNodes_from unicode rnd 0 nodes"

subsection \<open>convertConnections\<close>

definition empty_connection :: N8nConnection where
  "empty_connection = \<lparr> main = [ [] ] \<rparr>"

text \<open>
  \<open>connections[k] = v\<close>, for an object \<open>v\<close>: under every name but one the assignment
  creates or replaces an own property. The name \<open>__proto__\<close> is an accessor inherited
  from \<open>Object.prototype\<close>: assigning an object to it installs that object as the
  prototype and creates no own property.
\<close>

definition assign_property :: "string \<Rightarrow> N8nConnection \<Rightarrow> N8nConnections \<Rightarrow> N8nConnections" where
  "assign_property k v conns =
     (if k = ''__proto__'' then conns \<lparr> prototype := Some v \<rparr>
      else conns \<lparr> own := (own conns)(k \<mapsto> v) \<rparr>)"

text \<open>
  \<open>connections[k]\<close>: the own property, and under \<open>__proto__\<close> the installed prototype.
  For a name that is neither, JavaScript goes on to the properties inherited from the
  prototype chain (\<open>constructor\<close>, \<open>toString\<close>, ...); they are not modelled, and
  \<open>convertConnections\<close> never reads such a name (lemma \<open>source_key_found\<close>): every key it
  reads was assigned by its first loop.
\<close>

definition get_property :: "string \<Rightarrow> N8nConnections \<Rightarrow> N8nConnection option" where
  "get_property k conns = (if k = ''__proto__'' then prototype conns else own conns k)"

text \<open>\<open>c.main[0].push(t)\<close>.\<close>

definition push_main0 :: "N8nConnectionTarget \<Rightarrow> N8nConnection \<Rightarrow> N8nConnection" where
  "push_main0 t c = c \<lparr> main := (main c)[0 := (main c ! 0) @ [t]] \<rparr>"

text \<open>
  \<open>connections[k].main[0].push(t)\<close>: the push changes the object the read returns, in
  place, be it an own property or the prototype.
\<close>

definition push_property :: "string \<Rightarrow> N8nConnectionTarget \<Rightarrow> N8nConnections \<Rightarrow> N8nConnections" where
  "push_property k t conns =
     (if k = ''__proto__'' then conns \<lparr> prototype := map_option (push_main0 t) (prototype conns) \<rparr>
      else (case own conns k of
              None \<Rightarrow> conns
            | Some c \<Rightarrow> conns \<lparr> own := (own conns)(k \<mapsto> push_main0 t c) \<rparr>))"

text \<open>First loop: every node's label is assigned an empty adjacency list.\<close>

definition init_connections :: "Node list \<Rightarrow> N8nConnections" where
  "init_connections nodes =
     fold (\<lambda>node conns. assign_property (template_string (label (data node))) empty_connection conns)
       nodes \<lparr> own = Map.empty, prototype = None \<rparr>"

text \<open>Second loop body: one edge, resolved through \<open>nodes.find\<close> on both ends.\<close>

definition add_edge_connection :: "Node list \<Rightarrow> Edge \<Rightarrow> N8nConnections \<Rightarrow> N8nConnections" where
  "add_edge_connection nodes edge conns =
     (case (find (\<lambda>n. node_id n = source edge) nodes,
            find (\<lambda>n. node_id n = target edge) nodes) of
        (Some sourceNode, Some targetNode) \<Rightarrow>
          (let sourceLabel = template_string (label (data sourceNode));
               conns' = (case get_property sourceLabel conns of
                           None \<Rightarrow> assign_property sourceLabel empty_connection conns
                         | Some _ \<Rightarrow> conns)
           in push_property sourceLabel
                \<lparr> conn_node = label (data targetNode), conn_type = ''main'', conn_index = 0 \<rparr>
                conns')
      | _ \<Rightarrow> conns)"

definition convertConnections :: "Node list \<Rightarrow> Edge list \<Rightarrow> N8nConnections" where
  "convertConnections nodes edges =
     fold (add_edge_connection nodes) edges (init_connections nodes)"

subsection \<open>convert\<close>

text \<open>\<open>today\<close> is \<open>new Date().toISOString().split('T')[0]\<close>.\<close>

definition generateWorkflowName :: "string \<Rightarrow> Node list \<Rightarrow> string" where
  "generateWorkflowName today nodes =
     (case find (\<lambda>n. nodeType (data n) = ''trigger'') nodes of
        Some triggerNode \<Rightarrow> template_string (label (data triggerNode)) @ '' - '' @ today
      | None \<Rightarrow> ''Nodex Workflow - '' @ today)"

definition convert ::
  "(string \<Rightarrow> string) \<Rightarrow> string \<Rightarrow> (nat \<Rightarrow> string) \<Rightarrow> Node list \<Rightarrow> Edge list \<Rightarrow> js_error + N8nWorkflow" where
  "convert unicode today rnd nodes edges =
     (case convertNodes unicode rnd nodes of
        Inl e \<Rightarrow> Inl e
      | Inr n8nNodes \<Rightarrow>
          (let connections = convertConnections nodes edges
           in Inr \<lparr> wf_name = generateWorkflowName today nodes,
                    wf_nodes = n8nNodes,
                    wf_connections = connections,
                    wf_active = False,
                    wf_settings = [(''executionOrder'', JString ''v1'')],
                    wf_staticData = [] \<rparr>))"

subsection \<open>Deployment metadata\<close>

text \<open>\<open>Array.from(new Set(xs))\<close>: first occurrences, in order.\<close>

fun dedup :: "'a list \<Rightarrow> 'a list \<Rightarrow> 'a list" where
  "dedup seen [] = rev seen"
| "dedup seen (x # xs) = (if x \<in> set seen then dedup seen xs else dedup (x # seen) xs)"

text \<open>The body of the \<open>forEach\<close> of \<open>getRequiredCredentials\<close>: what one node pushes.\<close>

definition node_credentials :: "(string \<Rightarrow> string) \<Rightarrow> Node \<Rightarrow> js_error + string list" where
  "node_credentials unicode node =
     (case label_toLowerCase unicode node of
        Inl e \<Rightarrow> Inl e
      | Inr l \<Rightarrow>
          Inr ((if str_includes l ''llm'' \<or> str_includes l ''ai'' \<or> str_includes l ''gpt''
                then [''OpenAI API Key''] else []) @
               (if str_includes l ''email'' then [''SMTP/Email Credentials''] else []) @
               (if str_includes l ''database'' then [''Database Connection''] else [])))"

fun collect_credentials ::
  "(string \<Rightarrow> string) \<Rightarrow> string list \<Rightarrow> Node list \<Rightarrow> js_error + string list" where
  "collect_credentials unicode credentials [] = Inr credentials"
| "collect_credentials unicode credentials (node # nodes) =
     (case node_credentials unicode node of
        Inl e \<Rightarrow> Inl e
      | Inr cs \<Rightarrow> collect_credentials unicode (credentials @ cs) nodes)"

definition getRequiredCredentials :: "(string \<Rightarrow> string) \<Rightarrow> Node list \<Rightarrow> js_error + string list" where
  "getRequiredCredentials unicode nodes =
     (case collect_credentials unicode [] nodes of
        Inl e \<Rightarrow> Inl e
      | Inr credentials \<Rightarrow> Inr (dedup [] credentials))"

record TestEndpoint =
  te_method :: string
  te_url :: string
  te_body :: "(string \<times> json) list"
  te_description :: string

text \<open>
  The callback of the \<open>filter\<close> of \<open>generateTestEndpoints\<close>; \<open>&&\<close> reads the label of a
  trigger node only.
\<close>

definition is_webhook_node :: "(string \<Rightarrow> string) \<Rightarrow> Node \<Rightarrow> js_error + bool" where
  "is_webhook_node unicode n =
     (if nodeType (data n) = ''trigger'' then
        (case label_toLowerCase unicode n of
           Inl e \<Rightarrow> Inl e
         | Inr l \<Rightarrow> Inr (str_includes l ''webhook''))
      else Inr False)"

fun filter_webhook_nodes :: "(string \<Rightarrow> string) \<Rightarrow> Node list \<Rightarrow> js_error + Node list" where
  "filter_webhook_nodes unicode [] = Inr []"
| "filter_webhook_nodes unicode (n # nodes) =
     (case is_webhook_node unicode n of
        Inl e \<Rightarrow> Inl e
      | Inr keep \<Rightarrow>
          (case filter_webhook_nodes unicode nodes of
             Inl e \<Rightarrow> Inl e
           | Inr rest \<Rightarrow> Inr (if keep then n # rest else rest)))"

text \<open>\<open>now\<close> is \<open>new Date().toISOString()\<close>.\<close>

definition generateTestEndpoints ::
  "(string \<Rightarrow> string) \<Rightarrow> string \<Rightarrow> Node list \<Rightarrow> js_error + TestEndpoint list" where
  "generateTestEndpoints unicode now nodes =
     (case filter_webhook_nodes unicode nodes of
        Inl e \<Rightarrow> Inl e
      | Inr webhookNodes \<Rightarrow>
          Inr (map (\<lambda>node. \<lparr> te_method = ''POST'',
                             te_url = ''http://localhost:5678/webhook/nodex-'' @ node_id node,
                             te_body = [(''test'', JString ''data''), (''timestamp'', JString now)],
                             te_description = ''Test endpoint for '' @ template_string (label (data node)) \<rparr>)
                 webhookNodes))"

section \<open>The edit layer\<close>

subsection \<open>deleteSelectedNodes (workflow builder)\<close>

text \<open>
  The builder's state, as far as deletion reads and writes it. \<open>addChatMessage\<close> is a
  placeholder in the builder (its body is empty), so the message of a call is kept
  here as the second component of the result: the role and the text it was called with.
\<close>

record BuilderState =
  st_nodes :: "Node list"
  st_edges :: "Edge list"
  st_selectedNodes :: "string list"

type_synonym ChatMessage = "string \<times> string"

text \<open>Decimal rendering of an array length inside a template literal.\<close>

fun digit_char :: "nat \<Rightarrow> char" where
  "digit_char n = char_of (48 + n)"

function show_nat :: "nat \<Rightarrow> string" where
  "show_nat n = (if n < 10 then [digit_char n] else show_nat (n div 10) @ [digit_char (n mod 10)])"
  by pat_completeness auto
termination
  by (relation "measure (\<lambda>n. n)") auto

text \<open>The warning sign and its variation selector (U+26A0 U+FE0F), as UTF-8 bytes.\<close>

definition warning_sign :: string where
  "warning_sign = [CHR 0xE2, CHR 0x9A, CHR 0xA0, CHR 0xEF, CHR 0xB8, CHR 0x8F]"

definition deleteSelectedNodes :: "BuilderState \<Rightarrow> BuilderState \<times> ChatMessage list" where
  "deleteSelectedNodes st =
     (if length (st_selectedNodes st) = 0 then
        (st, [(''system'', ''No nodes selected for deletion'')])
      else
        (let selectedNodeData =
               filter (\<lambda>n. node_id n \<in> set (st_selectedNodes st)) (st_nodes st);
             lockedNodes = filter (\<lambda>n. locked (data n)) selectedNodeData
         in if length lockedNodes > 0 then
              (st, [(''system'', warning_sign @ '' Cannot delete '' @ show_nat (length lockedNodes)
                                 @ '' compliance node(s) - they are locked'')])
            else
              (let newNodes = filter (\<lambda>n. node_id n \<notin> set (st_selectedNodes st)) (st_nodes st);
                   newEdges = filter (\<lambda>e. source e \<notin> set (st_selectedNodes st)
                                          \<and> target e \<notin> set (st_selectedNodes st)) (st_edges st)
               in (st \<lparr> st_nodes := newNodes, st_edges := newEdges, st_selectedNodes := [] \<rparr>,
                   [(''system'', ''Deleted '' @ show_nat (length (st_selectedNodes st))
                                 @ '' node(s) and connected edges'')]))))"

subsection \<open>handleDelete and deleteNode (canvas context menu)\<close>

record ContextMenu =
  cm_show :: bool
  cm_x :: real
  cm_y :: real
  cm_node :: "Node option"

record CanvasState =
  cv_nodes :: "Node list"
  cv_edges :: "Edge list"
  cv_contextMenu :: ContextMenu
  cv_showNodeDetails :: bool
  cv_showNodeToolbar :: bool

text \<open>
  \<open>onFlowChange\<close> is an optional callback of the canvas; \<open>hasCallback\<close> says whether it
  was given, and the calls made are the second component of the result.
\<close>

definition deleteNode ::
  "bool \<Rightarrow> string \<Rightarrow> CanvasState \<Rightarrow> CanvasState \<times> (Node list \<times> Edge list) list" where
  "deleteNode hasCallback nodeId st =
     (let updatedNodes = filter (\<lambda>node. node_id node \<noteq> nodeId) (cv_nodes st)
      in (st \<lparr> cv_nodes := updatedNodes,
               cv_edges := filter (\<lambda>edge. source edge \<noteq> nodeId \<and> target edge \<noteq> nodeId) (cv_edges st),
               cv_showNodeDetails := False,
               cv_showNodeToolbar := False \<rparr>,
          if hasCallback then [(updatedNodes, cv_edges st)] else []))"

definition closed_menu :: ContextMenu where
  "closed_menu = \<lparr> cm_show = False, cm_x = 0, cm_y = 0, cm_node = None \<rparr>"

definition handleDelete ::
  "bool \<Rightarrow> CanvasState \<Rightarrow> CanvasState \<times> (Node list \<times> Edge list) list" where
  "handleDelete hasCallback st =
     (case cm_node (cv_contextMenu st) of
        Some node \<Rightarrow>
          (if \<not> locked (data node) then
             (let (st', calls) = deleteNode hasCallback (node_id node) st
              in (st' \<lparr> cv_contextMenu := closed_menu \<rparr>, calls))
           else (st \<lparr> cv_contextMenu := closed_menu \<rparr>, []))
      | None \<Rightarrow> (st \<lparr> cv_contextMenu := closed_menu \<rparr>, []))"

section \<open>The layout solver\<close>

text \<open>
  Coordinates are JavaScript numbers, that is IEEE doubles; a double is the real it
  denotes (NaN and the infinities are no coordinates here). What the platform computes
  on doubles, with its roundings, is not tabulated: the additions, multiplications and
  divisions of \<open>findFreePosition\<close>, \<open>Math.cos\<close>, \<open>Math.sin\<close> and \<open>Math.PI\<close> are the fields
  of the parameter \<open>fp\<close>, and what is proved of \<open>findFreePosition\<close> is proved for every
  \<open>fp\<close>. \<open>Math.max\<close> and the comparisons are exact. \<open>exact_arith\<close> is the arithmetic
  without rounding; on the integers of the examples the platform computes the same.
  Every coordinate the rearrangement \<open>arrangeNodesIntelligently\<close> computes is a sum or
  product of small integers, which doubles compute without rounding, so it is written
  with the operations of the reals.
\<close>

record Arith =
  fadd :: "real \<Rightarrow> real \<Rightarrow> real"
  fmul :: "real \<Rightarrow> real \<Rightarrow> real"
  fdiv :: "real \<Rightarrow> real \<Rightarrow> real"
  Math_cos :: "real \<Rightarrow> real"
  Math_sin :: "real \<Rightarrow> real"
  Math_PI :: real

definition exact_arith :: Arith where
  "exact_arith = \<lparr> fadd = (+), fmul = (*), fdiv = (/), Math_cos = cos, Math_sin = sin, Math_PI = pi \<rparr>"

text \<open>
  What the examples with fractional coordinates need of the platform: sums and products
  of small integers are exact, a sum of small numbers and a product of a small number
  with a number of \<open>[-1, 1]\<close> are off by at most 1, and \<open>Math.cos\<close> and \<open>Math.sin\<close>
  return numbers of \<open>[-1, 1]\<close>. IEEE double arithmetic is \<open>faithful\<close> in this sense, and
  so is the arithmetic without rounding.
\<close>

definition faithful :: "Arith \<Rightarrow> bool" where
  "faithful fp \<longleftrightarrow>
     (\<forall>m n :: int. \<bar>m\<bar> \<le> 4096 \<and> \<bar>n\<bar> \<le> 4096 \<longrightarrow>
        fadd fp (of_int m) (of_int n) = of_int (m + n)
        \<and> fmul fp (of_int m) (of_int n) = of_int (m * n))
     \<and> (\<forall>a b. \<bar>a\<bar> \<le> 4096 \<and> \<bar>b\<bar> \<le> 4096 \<longrightarrow> \<bar>fadd fp a b - (a + b)\<bar> \<le> 1)
     \<and> (\<forall>a b. \<bar>a\<bar> \<le> 4096 \<and> \<bar>b\<bar> \<le> 1 \<longrightarrow> \<bar>fmul fp a b - a * b\<bar> \<le> 1)
     \<and> (\<forall>x. \<bar>Math_cos fp x\<bar> \<le> 1 \<and> \<bar>Math_sin fp x\<bar> \<le> 1)"

definition nodeWidth :: real where "nodeWidth = 150"
definition nodeHeight :: real where "nodeHeight = 80"
definition minSpacing :: real where "minSpacing = 10"
definition sectionSpacing :: real where "sectionSpacing = 40"

subsection \<open>findFreePosition\<close>

text \<open>The callback of \<open>some\<close> inside \<open>isPositionFree\<close>.\<close>

definition overlaps :: "Arith \<Rightarrow> real \<Rightarrow> real \<Rightarrow> XYPosition \<Rightarrow> bool" where
  "overlaps fp testX testY pos =
     (let ex = xpos pos;
          ey = ypos pos;
          rightEdgeNew = fadd fp testX nodeWidth;
          bottomEdgeNew = fadd fp testY nodeHeight;
          rightEdgeExisting = fadd fp ex nodeWidth;
          bottomEdgeExisting = fadd fp ey nodeHeight;
          horizontalOverlap = (\<not> (fadd fp rightEdgeNew minSpacing \<le> ex
                                   \<or> testX \<ge> fadd fp rightEdgeExisting minSpacing));
          verticalOverlap = (\<not> (fadd fp bottomEdgeNew minSpacing \<le> ey
                                 \<or> testY \<ge> fadd fp bottomEdgeExisting minSpacing))
      in horizontalOverlap \<and> verticalOverlap)"

definition isPositionFree ::
  "Arith \<Rightarrow> XYPosition list \<Rightarrow> XYPosition list \<Rightarrow> real \<Rightarrow> real \<Rightarrow> bool" where
  "isPositionFree fp allPositions pendingPositions testX testY =
     (let allPositionsToCheck = allPositions @ pendingPositions;
          hasOverlap = list_ex (overlaps fp testX testY) allPositionsToCheck
      in \<not> hasOverlap)"

definition gridSpacing :: "Arith \<Rightarrow> real" where
  "gridSpacing fp = fadd fp (fadd fp nodeWidth minSpacing) 20"
definition startX :: real where "startX = 50"
definition startY :: real where "startY = 50"

text \<open>The grid scan: the inner loop over the columns of one row, then the loop over rows.\<close>

function grid_cols ::
  "Arith \<Rightarrow> XYPosition list \<Rightarrow> XYPosition list \<Rightarrow> nat \<Rightarrow> nat \<Rightarrow> XYPosition option" where
  "grid_cols fp allPositions pendingPositions row col =
     (if col < 8 then
        (let x = fadd fp startX (fmul fp (real col) (gridSpacing fp));
             y = fadd fp startY (fmul fp (real row) (fadd fp (fadd fp nodeHeight minSpacing) 20))
         in if isPositionFree fp allPositions pendingPositions x y then Some \<lparr> xpos = x, ypos = y \<rparr>
            else grid_cols fp allPositions pendingPositions row (col + 1))
      else None)"
  by pat_completeness auto
termination
  by (relation "measure (\<lambda>(fp, a, p, row, col). 8 - col)") auto

function grid_rows ::
  "Arith \<Rightarrow> XYPosition list \<Rightarrow> XYPosition list \<Rightarrow> nat \<Rightarrow> XYPosition option" where
  "grid_rows fp allPositions pendingPositions row =
     (if row < 10 then
        (case grid_cols fp allPositions pendingPositions row 0 of
           Some p \<Rightarrow> Some p
         | None \<Rightarrow> grid_rows fp allPositions pendingPositions (row + 1))
      else None)"
  by pat_completeness auto
termination
  by (relation "measure (\<lambda>(fp, a, p, row). 10 - row)") auto

text \<open>
  The spiral scan. \<open>cx\<close> and \<open>cy\<close> are \<open>preferredX ?? 300\<close> and \<open>preferredY ?? 200\<close>;
  radius and angle are the loop counters, in pixels and degrees (integers, counted
  without rounding).
\<close>

definition spiralRadius :: nat where "spiralRadius = 50"

function spiral_angles ::
  "Arith \<Rightarrow> XYPosition list \<Rightarrow> XYPosition list \<Rightarrow> real \<Rightarrow> real \<Rightarrow> nat \<Rightarrow> nat \<Rightarrow> XYPosition option" where
  "spiral_angles fp allPositions pendingPositions cx cy radius angle =
     (if angle < 360 then
        (let x = max 50 (fadd fp cx (fmul fp (real radius)
                    (Math_cos fp (fdiv fp (fmul fp (real angle) (Math_PI fp)) 180))));
             y = max 50 (fadd fp cy (fmul fp (real radius)
                    (Math_sin fp (fdiv fp (fmul fp (real angle) (Math_PI fp)) 180))))
         in if isPositionFree fp allPositions pendingPositions x y then Some \<lparr> xpos = x, ypos = y \<rparr>
            else spiral_angles fp allPositions pendingPositions cx cy radius (angle + 45))
      else None)"
  by pat_completeness auto
termination
  by (relation "measure (\<lambda>(fp, a, p, cx, cy, radius, angle). 360 - angle)") auto

function spiral_radii ::
  "Arith \<Rightarrow> XYPosition list \<Rightarrow> XYPosition list \<Rightarrow> real \<Rightarrow> real \<Rightarrow> nat \<Rightarrow> XYPosition option" where
  "spiral_radii fp allPositions pendingPositions cx cy radius =
     (if radius \<le> 400 then
        (case spiral_angles fp allPositions pendingPositions cx cy radius 0 of
           Some p \<Rightarrow> Some p
         | None \<Rightarrow> spiral_radii fp allPositions pendingPositions cx cy (radius + spiralRadius))
      else None)"
  by pat_completeness auto
termination
  by (relation "measure (\<lambda>(fp, a, p, cx, cy, radius). 401 - radius)") (auto simp: spiralRadius_def)

text \<open>\<open>a ?? b\<close> on an optional number.\<close>

definition nullish :: "real option \<Rightarrow> real \<Rightarrow> real" where
  "nullish a b = (case a of None \<Rightarrow> b | Some v \<Rightarrow> v)"

text \<open>
  \<open>random1\<close> and \<open>random2\<close> are the two values \<open>Math.random\<close> returns in the last
  resort; they are in \<open>[0, 1)\<close>.
\<close>

definition findFreePosition ::
  "Arith \<Rightarrow> XYPosition list \<Rightarrow> XYPosition list \<Rightarrow> real \<Rightarrow> real \<Rightarrow> real option \<Rightarrow> real option
     \<Rightarrow> XYPosition" where
  "findFreePosition fp allPositions pendingPositions random1 random2 preferredX preferredY =
     (let x = nullish preferredX 100;
          y = nullish preferredY 100
      in if isPositionFree fp allPositions pendingPositions x y then \<lparr> xpos = x, ypos = y \<rparr>
         else
           (case grid_rows fp allPositions pendingPositions 0 of
              Some p \<Rightarrow> p
            | None \<Rightarrow>
                (case spiral_radii fp allPositions pendingPositions
                        (nullish preferredX 300) (nullish preferredY 200) spiralRadius of
                   Some p \<Rightarrow> p
                 | None \<Rightarrow> \<lparr> xpos = max 50 (fadd fp (nullish preferredX 100) (fmul fp random1 200)),
                              ypos = max 50 (fadd fp (nullish preferredY 100) (fmul fp random2 200)) \<rparr>)))"

subsection \<open>arrangeNodesIntelligently\<close>

text \<open>
  \<open>Math.ceil(Math.sqrt(n))\<close> and \<open>Math.ceil(a / b)\<close> on array lengths, computed on the
  naturals.
\<close>

function ceil_sqrt_from :: "nat \<Rightarrow> nat \<Rightarrow> nat" where
  "ceil_sqrt_from k n = (if n \<le> k * k then k else ceil_sqrt_from (Suc k) n)"
  by pat_completeness auto
termination
  by (relation "measure (\<lambda>(k, n). n - k * k)") auto

definition ceil_sqrt :: "nat \<Rightarrow> nat" where
  "ceil_sqrt n = ceil_sqrt_from 0 n"

definition ceil_div :: "nat \<Rightarrow> nat \<Rightarrow> nat" where
  "ceil_div a b = (a + b - 1) div b"

text \<open>
  The filtered arrays hold references to the node objects of \<open>newNodes\<close>, and each
  \<open>forEach\<close> assigns \<open>node.position\<close> through them. A reference is the index of the
  node in \<open>newNodes\<close>; a pass over a band writes the position of each referenced node,
  computed from the running index of the pass.
\<close>

fun forEach_position :: "(nat \<Rightarrow> XYPosition) \<Rightarrow> nat list \<Rightarrow> nat \<Rightarrow> Node list \<Rightarrow> Node list" where
  "forEach_position f [] index ns = ns"
| "forEach_position f (i # is) index ns =
     forEach_position f is (Suc index) (ns[i := (ns ! i) \<lparr> position := f index \<rparr>])"

text \<open>
  The constants and the filtered arrays of the function, each under its own name; the
  value of \<open>currentY\<close> after each band is \<open>currentY1\<close>, \<open>currentY2\<close>, \<open>currentY3\<close>.
\<close>

definition baseX :: real where "baseX = 50"
definition horizontalSpacing :: real where "horizontalSpacing = nodeWidth + minSpacing + 20"
definition verticalSpacing :: real where "verticalSpacing = nodeHeight + minSpacing + 20"

definition triggers :: "Node list \<Rightarrow> nat list" where
  "triggers newNodes =
     filter (\<lambda>i. nodeType (data (newNodes ! i)) = ''trigger''
                \<or> nodeType (data (newNodes ! i)) = ''manual'') [0..<length newNodes]"

definition actions :: "Node list \<Rightarrow> nat list" where
  "actions newNodes =
     filter (\<lambda>i. nodeType (data (newNodes ! i)) = ''action''
                \<or> nodeType (data (newNodes ! i)) = ''condition'') [0..<length newNodes]"

definition outputs :: "Node list \<Rightarrow> nat list" where
  "outputs newNodes =
     filter (\<lambda>i. nodeType (data (newNodes ! i)) = ''database''
                \<or> nodeType (data (newNodes ! i)) = ''notification'') [0..<length newNodes]"

definition compliance :: "Node list \<Rightarrow> nat list" where
  "compliance newNodes = filter (\<lambda>i. locked (data (newNodes ! i))) [0..<length newNodes]"

definition others :: "Node list \<Rightarrow> nat list" where
  "others newNodes =
     filter (\<lambda>i. i \<notin> set (triggers newNodes) \<and> i \<notin> set (actions newNodes)
                \<and> i \<notin> set (outputs newNodes) \<and> i \<notin> set (compliance newNodes))
       [0..<length newNodes]"

definition currentY1 :: "Node list \<Rightarrow> real" where
  "currentY1 newNodes =
     (if length (triggers newNodes) > 0 then 50 + (verticalSpacing + sectionSpacing) else 50)"

definition actionsPerRow :: "Node list \<Rightarrow> nat" where
  "actionsPerRow newNodes = min 4 (max 2 (ceil_sqrt (length (actions newNodes))))"

definition currentY2 :: "Node list \<Rightarrow> real" where
  "currentY2 newNodes =
     (if length (actions newNodes) > 0
      then currentY1 newNodes
           + ((real (ceil_div (length (actions newNodes)) (actionsPerRow newNodes)) * verticalSpacing)
              + sectionSpacing)
      else currentY1 newNodes)"

definition othersPerRow :: "Node list \<Rightarrow> nat" where
  "othersPerRow newNodes = min 3 (max 2 (ceil_sqrt (length (others newNodes))))"

definition currentY3 :: "Node list \<Rightarrow> real" where
  "currentY3 newNodes =
     (if length (others newNodes) > 0
      then currentY2 newNodes
           + ((real (ceil_div (length (others newNodes)) (othersPerRow newNodes)) * verticalSpacing)
              + sectionSpacing)
      else currentY2 newNodes)"

definition complianceStartX :: "Node list \<Rightarrow> real" where
  "complianceStartX newNodes =
     baseX
     + (real (max (max (actionsPerRow newNodes) (othersPerRow newNodes)) (length (outputs newNodes)))
        * horizontalSpacing)
     + sectionSpacing"

text \<open>The five passes, in the order of the source; each works on the nodes as the
  passes before it left them, and the last one, over the locked nodes, overrides the
  position a locked node got in its band.\<close>

definition arrangeNodesIntelligently :: "Node list \<Rightarrow> Node list" where
  "arrangeNodesIntelligently newNodes =
     (let ns1 = forEach_position
                  (\<lambda>index. \<lparr> xpos = baseX + (real index * horizontalSpacing), ypos = 50 \<rparr>)
                  (triggers newNodes) 0 newNodes;
          ns2 = forEach_position
                  (\<lambda>index. let row = index div actionsPerRow newNodes;
                                col = index mod actionsPerRow newNodes
                            in \<lparr> xpos = baseX + (real col * horizontalSpacing),
                                 ypos = currentY1 newNodes + (real row * verticalSpacing) \<rparr>)
                  (actions newNodes) 0 ns1;
          ns3 = forEach_position
                  (\<lambda>index. let row = index div othersPerRow newNodes;
                                col = index mod othersPerRow newNodes
                            in \<lparr> xpos = baseX + (real col * horizontalSpacing),
                                 ypos = currentY2 newNodes + (real row * verticalSpacing) \<rparr>)
                  (others newNodes) 0 ns2;
          ns4 = forEach_position
                  (\<lambda>index. \<lparr> xpos = baseX + (real index * horizontalSpacing),
                              ypos = currentY3 newNodes \<rparr>)
                  (outputs newNodes) 0 ns3
      in forEach_position
           (\<lambda>index. \<lparr> xpos = complianceStartX newNodes, ypos = 50 + (real index * verticalSpacing) \<rparr>)
           (compliance newNodes) 0 ns4)"

subsection \<open>The no-overlap property, in the specification's words\<close>

text \<open>
  The edge-to-edge gap between two node rectangles is at least \<open>minSpacing\<close> in at
  least one axis: \<open>gap_ok\<close> with the sums of the reals, \<open>spaced\<close> with the sums the
  platform computes for the edges.
\<close>

definition gap_ok :: "XYPosition \<Rightarrow> XYPosition \<Rightarrow> bool" where
  "gap_ok p q =
     (xpos p + nodeWidth + minSpacing \<le> xpos q \<or> xpos q + nodeWidth + minSpacing \<le> xpos p
      \<or> ypos p + nodeHeight + minSpacing \<le> ypos q \<or> ypos q + nodeHeight + minSpacing \<le> ypos p)"

definition spaced :: "Arith \<Rightarrow> XYPosition \<Rightarrow> XYPosition \<Rightarrow> bool" where
  "spaced fp p q =
     (fadd fp (fadd fp (xpos p) nodeWidth) minSpacing \<le> xpos q
      \<or> fadd fp (fadd fp (xpos q) nodeWidth) minSpacing \<le> xpos p
      \<or> fadd fp (fadd fp (ypos p) nodeHeight) minSpacing \<le> ypos q
      \<or> fadd fp (fadd fp (ypos q) nodeHeight) minSpacing \<le> ypos p)"

text \<open>
  Two positions a full step of the rearrangement apart in some axis: \<open>horizontalSpacing\<close>
  from left edge to left edge, or \<open>verticalSpacing\<close> from top edge to top edge.
\<close>

definition step_apart :: "XYPosition \<Rightarrow> XYPosition \<Rightarrow> bool" where
  "step_apart p q =
     (xpos p + horizontalSpacing \<le> xpos q \<or> xpos q + horizontalSpacing \<le> xpos p
      \<or> ypos p + verticalSpacing \<le> ypos q \<or> ypos q + verticalSpacing \<le> ypos p)"

text \<open>
  The rectangle of a node at \<open>p\<close> expanded by \<open>minSpacing\<close>, as section 8 of the
  specification reads it: the footprint grown by the spacing on each of its four sides.
\<close>

definition expanded_rect :: "XYPosition \<Rightarrow> (real \<times> real) set" where
  "expanded_rect p =
     {(a, b). xpos p - minSpacing \<le> a \<and> a \<le> xpos p + nodeWidth + minSpacing
            \<and> ypos p - minSpacing \<le> b \<and> b \<le> ypos p + nodeHeight + minSpacing}"

text \<open>
  The footprint of a node at \<open>p\<close>, and its footprint expanded by \<open>minSpacing\<close> on each
  side without the border of the expansion.
\<close>

definition footprint :: "XYPosition \<Rightarrow> (real \<times> real) set" where
  "footprint p =
     {(a, b). xpos p \<le> a \<and> a \<le> xpos p + nodeWidth \<and> ypos p \<le> b \<and> b \<le> ypos p + nodeHeight}"

definition expanded_interior :: "XYPosition \<Rightarrow> (real \<times> real) set" where
  "expanded_interior p =
     {(a, b). xpos p - minSpacing < a \<and> a < xpos p + nodeWidth + minSpacing
            \<and> ypos p - minSpacing < b \<and> b < ypos p + nodeHeight + minSpacing}"

text \<open>
  The search order of the incremental placement, as a list of candidates: the
  coordinate the caller prefers (100 for a coordinate it leaves out), the grid row by
  row with the columns of a row from left to right, then the spiral around the
  preferred coordinate (300 and 200 for a coordinate left out), radius by radius (50 to
  400 in steps of 50) with the eight angles of a radius in steps of 45 degrees.
\<close>

definition preferred_point :: "real option \<Rightarrow> real option \<Rightarrow> XYPosition" where
  "preferred_point preferredX preferredY =
     \<lparr> xpos = (case preferredX of Some x \<Rightarrow> x | None \<Rightarrow> 100),
       ypos = (case preferredY of Some y \<Rightarrow> y | None \<Rightarrow> 100) \<rparr>"

definition spiral_centre :: "real option \<Rightarrow> real option \<Rightarrow> XYPosition" where
  "spiral_centre preferredX preferredY =
     \<lparr> xpos = (case preferredX of Some x \<Rightarrow> x | None \<Rightarrow> 300),
       ypos = (case preferredY of Some y \<Rightarrow> y | None \<Rightarrow> 200) \<rparr>"

definition grid_point :: "Arith \<Rightarrow> nat \<Rightarrow> nat \<Rightarrow> XYPosition" where
  "grid_point fp row col =
     \<lparr> xpos = fadd fp 50 (fmul fp (real col) (fadd fp (fadd fp nodeWidth minSpacing) 20)),
       ypos = fadd fp 50 (fmul fp (real row) (fadd fp (fadd fp nodeHeight minSpacing) 20)) \<rparr>"

definition spiral_point :: "Arith \<Rightarrow> XYPosition \<Rightarrow> nat \<Rightarrow> nat \<Rightarrow> XYPosition" where
  "spiral_point fp c r k =
     \<lparr> xpos = max 50 (fadd fp (xpos c) (fmul fp (real (50 * r))
                 (Math_cos fp (fdiv fp (fmul fp (real (45 * k)) (Math_PI fp)) 180)))),
       ypos = max 50 (fadd fp (ypos c) (fmul fp (real (50 * r))
                 (Math_sin fp (fdiv fp (fmul fp (real (45 * k)) (Math_PI fp)) 180)))) \<rparr>"

definition grid_candidates :: "Arith \<Rightarrow> XYPosition list" where
  "grid_candidates fp = concat (map (\<lambda>row. map (grid_point fp row) [0..<8]) [0..<10])"

definition spiral_candidates :: "Arith \<Rightarrow> XYPosition \<Rightarrow> XYPosition list" where
  "spiral_candidates fp c = concat (map (\<lambda>r. map (spiral_point fp c r) [0..<8]) [1..<9])"

definition search_order :: "Arith \<Rightarrow> real option \<Rightarrow> real option \<Rightarrow> XYPosition list" where
  "search_order fp preferredX preferredY =
     preferred_point preferredX preferredY
       # grid_candidates fp @ spiral_candidates fp (spiral_centre preferredX preferredY)"

text \<open>The position the last resort returns, unchecked.\<close>

definition random_offset :: "Arith \<Rightarrow> real \<Rightarrow> real \<Rightarrow> real option \<Rightarrow> real option \<Rightarrow> XYPosition" where
  "random_offset fp random1 random2 preferredX preferredY =
     \<lparr> xpos = max 50 (fadd fp (xpos (preferred_point preferredX preferredY)) (fmul fp random1 200)),
       ypos = max 50 (fadd fp (ypos (preferred_point preferredX preferredY)) (fmul fp random2 200)) \<rparr>"

text \<open>The acceptance test of a candidate, on a position.\<close>

definition free_at :: "Arith \<Rightarrow> XYPosition list \<Rightarrow> XYPosition list \<Rightarrow> XYPosition \<Rightarrow> bool" where
  "free_at fp allPositions pendingPositions p =
     isPositionFree fp allPositions pendingPositions (xpos p) (ypos p)"

subsection \<open>The arrangement in closed form\<close>

text \<open>
  Membership of the node at index \<open>i\<close> in the filtered arrays, the number of earlier
  members of a band (its running index in the pass over the band), and the position
  the five passes leave each node with.
\<close>

definition band_trigger :: "Node list \<Rightarrow> nat \<Rightarrow> bool" where
  "band_trigger ns i \<longleftrightarrow> nodeType (data (ns ! i)) = ''trigger'' \<or> nodeType (data (ns ! i)) = ''manual''"

definition band_action :: "Node list \<Rightarrow> nat \<Rightarrow> bool" where
  "band_action ns i \<longleftrightarrow> nodeType (data (ns ! i)) = ''action'' \<or> nodeType (data (ns ! i)) = ''condition''"

definition band_output :: "Node list \<Rightarrow> nat \<Rightarrow> bool" where
  "band_output ns i \<longleftrightarrow> nodeType (data (ns ! i)) = ''database'' \<or> nodeType (data (ns ! i)) = ''notification''"

definition band_compliance :: "Node list \<Rightarrow> nat \<Rightarrow> bool" where
  "band_compliance ns i \<longleftrightarrow> locked (data (ns ! i))"

definition band_other :: "Node list \<Rightarrow> nat \<Rightarrow> bool" where
  "band_other ns i \<longleftrightarrow>
     \<not> band_trigger ns i \<and> \<not> band_action ns i \<and> \<not> band_output ns i \<and> \<not> band_compliance ns i"

definition rank :: "(nat \<Rightarrow> bool) \<Rightarrow> nat \<Rightarrow> nat" where
  "rank P j = length (filter P [0..<j])"

definition arranged_position :: "Node list \<Rightarrow> nat \<Rightarrow> XYPosition" where
  "arranged_position ns j =
     (if band_compliance ns j then
        \<lparr> xpos = complianceStartX ns, ypos = 50 + real (rank (band_compliance ns) j) * 110 \<rparr>
      else if band_output ns j then
        \<lparr> xpos = 50 + real (rank (band_output ns) j) * 180, ypos = currentY3 ns \<rparr>
      else if band_other ns j then
        \<lparr> xpos = 50 + real (rank (band_other ns) j mod othersPerRow ns) * 180,
          ypos = currentY2 ns + real (rank (band_other ns) j div othersPerRow ns) * 110 \<rparr>
      else if band_action ns j then
        \<lparr> xpos = 50 + real (rank (band_action ns) j mod actionsPerRow ns) * 180,
          ypos = currentY1 ns + real (rank (band_action ns) j div actionsPerRow ns) * 110 \<rparr>
      else
        \<lparr> xpos = 50 + real (rank (band_trigger ns) j) * 180, ypos = 50 \<rparr>)"

text \<open>
  An unlocked node of the trigger row, and the first locked node of the list (the one
  the pass over the locked nodes puts at the top of the compliance column).
  \<open>widest\<close> is \<open>Math.max(actionsPerRow, othersPerRow, outputs.length)\<close>, the number of
  columns the compliance column is moved to the right. A trigger whose index in the
  trigger row is \<open>widest\<close> or \<open>widest + 1\<close> and the first locked node form an
  \<open>unsettled_pair\<close>.
\<close>

definition trigger_row :: "Node list \<Rightarrow> nat \<Rightarrow> bool" where
  "trigger_row ns i \<longleftrightarrow>
     (nodeType (data (ns ! i)) = ''trigger'' \<or> nodeType (data (ns ! i)) = ''manual'')
     \<and> \<not> locked (data (ns ! i))"

definition first_locked :: "Node list \<Rightarrow> nat \<Rightarrow> bool" where
  "first_locked ns j \<longleftrightarrow>
     locked (data (ns ! j)) \<and> list_all (\<lambda>n. \<not> locked (data n)) (take j ns)"

definition widest :: "Node list \<Rightarrow> nat" where
  "widest ns = max (max (actionsPerRow ns) (othersPerRow ns)) (length (outputs ns))"

definition unsettled_pair :: "Node list \<Rightarrow> nat \<Rightarrow> nat \<Rightarrow> bool" where
  "unsettled_pair ns i j \<longleftrightarrow>
     trigger_row ns i \<and> first_locked ns j
     \<and> (rank (band_trigger ns) i = widest ns \<or> rank (band_trigger ns) i = Suc (widest ns))"

subsection \<open>The adjacency structure, in the specification's words\<close>

text \<open>
  The key of a node in the connection map is its label, as a property name. What an
  edge contributes to the map: the key of its source node and an entry naming the label
  of its target node, when both ends resolve.
\<close>

definition key_of :: "Node \<Rightarrow> string" where
  "key_of n = template_string (label (data n))"

definition edge_entry :: "Node list \<Rightarrow> Edge \<Rightarrow> (string \<times> N8nConnectionTarget) option" where
  "edge_entry nodes e =
     (case (find (\<lambda>n. node_id n = source e) nodes, find (\<lambda>n. node_id n = target e) nodes) of
        (Some s, Some t) \<Rightarrow>
          Some (key_of s, \<lparr> conn_node = label (data t), conn_type = ''main'', conn_index = 0 \<rparr>)
      | _ \<Rightarrow> None)"

definition adjacency :: "Node list \<Rightarrow> Edge list \<Rightarrow> string \<Rightarrow> N8nConnectionTarget list" where
  "adjacency nodes edges l =
     map snd (filter (\<lambda>p. fst p = l) (List.map_filter (edge_entry nodes) edges))"

text \<open>A trigger node whose label mentions a webhook, in any letter case.\<close>

definition is_webhook_trigger :: "(string \<Rightarrow> string) \<Rightarrow> Node \<Rightarrow> bool" where
  "is_webhook_trigger unicode n \<longleftrightarrow>
     nodeType (data n) = ''trigger''
     \<and> (case label (data n) of
          None \<Rightarrow> False
        | Some l \<Rightarrow> sublist ''webhook'' (toLowerCase unicode l))"

text \<open>The credential names the label of a node calls for.\<close>

definition label_credentials :: "(string \<Rightarrow> string) \<Rightarrow> string \<Rightarrow> string set" where
  "label_credentials unicode l =
     (if sublist ''llm'' (toLowerCase unicode l) \<or> sublist ''ai'' (toLowerCase unicode l)
         \<or> sublist ''gpt'' (toLowerCase unicode l) then {''OpenAI API Key''} else {})
     \<union> (if sublist ''email'' (toLowerCase unicode l) then {''SMTP/Email Credentials''} else {})
     \<union> (if sublist ''database'' (toLowerCase unicode l) then {''Database Connection''} else {})"

section \<open>The invariant enforcer\<close>

text \<open>
  Modelled from the spec: the node kinds of section 3; the enforcer and the graph model
  it works on are not among the sources.
\<close>

datatype kind = Trigger | Action | Condition | Validation | Notification | Audit | Terminal | Generic

text \<open>
  Modelled from the spec: the Node of section 3. The last field is the compliance-type
  marker that step 1 of the enforcer looks for on a previously injected node.
\<close>

record GNode =
  gn_id :: string
  gn_kind :: kind
  gn_label :: string
  gn_description :: string
  gn_position :: "real \<times> real"
  gn_locked :: bool
  gn_complianceReason :: "string option"
  gn_domainTag :: "string option"
  gn_complianceType :: "string option"

text \<open>Modelled from the spec: the Edge of section 3.\<close>

record GEdge =
  ge_id :: string
  sourceNodeId :: string
  targetNodeId :: string

text \<open>Modelled from the spec: the Graph of section 3, its two sets kept as lists.\<close>

record Graph =
  g_nodes :: "GNode list"
  g_edges :: "GEdge list"

text \<open>Modelled from the spec: the anchor modes and the RequiredStep of section 3.\<close>

datatype anchor_mode = beforeLabelMatch | afterLabelMatch | atStart | atEnd

record Anchor =
  an_mode :: anchor_mode
  an_matchKeyword :: "string option"

record RequiredStep =
  rs_label :: string
  rs_complianceType :: string
  rs_anchor :: Anchor
  rs_reason :: string

text \<open>
  Modelled from the spec: what the specification leaves to convention, as parameters of
  the enforcer: the kind chosen from a compliance type, the id of a synthesized node
  and the id of an edge added between two nodes.
\<close>

record Conventions =
  kind_of :: "string \<Rightarrow> kind"
  node_id_for :: "Graph \<Rightarrow> RequiredStep \<Rightarrow> string"
  edge_id_for :: "string \<Rightarrow> string \<Rightarrow> string"

text \<open>
  Modelled from the spec: the findings of \<open>validate()\<close> (section 4.1) and the
  non-fatal warning of anchor resolution (section 7).
\<close>

datatype issue = DuplicateId string | DanglingEdge string | SelfLoop string

datatype enforce_error = ValidationError "issue list"

datatype warning = AnchorNotFoundWarning string

text \<open>
  Modelled from the spec: case-insensitive containment of a keyword in a label (letter
  case is that of the ASCII letters).
\<close>

definition contains_ci :: "string \<Rightarrow> string \<Rightarrow> bool" where
  "contains_ci l k = str_includes (ascii_toLowerCase l) (ascii_toLowerCase k)"

text \<open>
  Modelled from the spec: \<open>validate()\<close> of section 4.1, enumerating duplicate ids,
  dangling edges and edges from a node to itself.
\<close>

fun duplicates :: "string list \<Rightarrow> string list" where
  "duplicates [] = []"
| "duplicates (x # xs) = (if x \<in> set xs then x # duplicates xs else duplicates xs)"

definition validate :: "Graph \<Rightarrow> issue list" where
  "validate g =
     map DuplicateId (duplicates (map gn_id (g_nodes g)))
     @ map DuplicateId (duplicates (map ge_id (g_edges g)))
     @ map (\<lambda>e. DanglingEdge (ge_id e))
         (filter (\<lambda>e. sourceNodeId e \<notin> set (map gn_id (g_nodes g))
                      \<or> targetNodeId e \<notin> set (map gn_id (g_nodes g))) (g_edges g))
     @ map (\<lambda>e. SelfLoop (ge_id e)) (filter (\<lambda>e. sourceNodeId e = targetNodeId e) (g_edges g))"

text \<open>
  Modelled from the spec: step 1 of the enforcer. A node matches a required step when
  its label contains the step's keyword, case-insensitively, or when it is a
  previously injected node carrying the step's compliance type; the step is already
  satisfied when a node that matches it is locked.
\<close>

definition matches_step :: "RequiredStep \<Rightarrow> GNode \<Rightarrow> bool" where
  "matches_step s n \<longleftrightarrow>
     (case an_matchKeyword (rs_anchor s) of
        Some k \<Rightarrow> contains_ci (gn_label n) k
      | None \<Rightarrow> False)
     \<or> gn_complianceType n = Some (rs_complianceType s)"

definition satisfied :: "RequiredStep \<Rightarrow> Graph \<Rightarrow> bool" where
  "satisfied s g = list_ex (\<lambda>n. matches_step s n \<and> gn_locked n) (g_nodes g)"

text \<open>
  Modelled from the spec: step 2 of the enforcer, the synthesized node: locked, with
  the step's reason as compliance reason and a kind chosen from the compliance type.
\<close>

definition synthesize :: "Conventions \<Rightarrow> Graph \<Rightarrow> RequiredStep \<Rightarrow> GNode" where
  "synthesize cv g s =
     \<lparr> gn_id = node_id_for cv g s,
       gn_kind = kind_of cv (rs_complianceType s),
       gn_label = rs_label s,
       gn_description = rs_reason s,
       gn_position = (0, 0),
       gn_locked = True,
       gn_complianceReason = Some (rs_reason s),
       gn_domainTag = None,
       gn_complianceType = Some (rs_complianceType s) \<rparr>"

text \<open>
  Modelled from the spec: step 3 of the enforcer, anchor resolution: the first existing
  node whose label contains the keyword; without one, the start for \<open>beforeLabelMatch\<close>
  and the end for \<open>afterLabelMatch\<close>, with a warning.
\<close>

definition resolve_anchor ::
  "RequiredStep \<Rightarrow> Graph \<Rightarrow> (anchor_mode \<times> GNode option) \<times> warning list" where
  "resolve_anchor s g =
     (let found = (case an_matchKeyword (rs_anchor s) of
                     Some k \<Rightarrow> find (\<lambda>n. contains_ci (gn_label n) k) (g_nodes g)
                   | None \<Rightarrow> None)
      in case an_mode (rs_anchor s) of
           beforeLabelMatch \<Rightarrow>
             (case found of
                Some a \<Rightarrow> ((beforeLabelMatch, Some a), [])
              | None \<Rightarrow> ((atStart, None), [AnchorNotFoundWarning (rs_label s)]))
         | afterLabelMatch \<Rightarrow>
             (case found of
                Some a \<Rightarrow> ((afterLabelMatch, Some a), [])
              | None \<Rightarrow> ((atEnd, None), [AnchorNotFoundWarning (rs_label s)]))
         | atStart \<Rightarrow> ((atStart, None), [])
         | atEnd \<Rightarrow> ((atEnd, None), []))"

text \<open>Modelled from the spec: an edge added by the enforcer between two nodes.\<close>

definition link :: "Conventions \<Rightarrow> string \<Rightarrow> string \<Rightarrow> GEdge" where
  "link cv a b = \<lparr> ge_id = edge_id_for cv a b, sourceNodeId = a, targetNodeId = b \<rparr>"

text \<open>
  Modelled from the spec: the entry nodes (no incoming edge) and the terminal nodes (no
  outgoing edge) of a graph.
\<close>

definition entry_nodes :: "Graph \<Rightarrow> GNode list" where
  "entry_nodes g = filter (\<lambda>n. gn_id n \<notin> set (map targetNodeId (g_edges g))) (g_nodes g)"

definition terminal_nodes :: "Graph \<Rightarrow> GNode list" where
  "terminal_nodes g = filter (\<lambda>n. gn_id n \<notin> set (map sourceNodeId (g_edges g))) (g_nodes g)"

text \<open>
  Modelled from the spec: step 4 of the enforcer, the splice. Before an anchor \<open>A\<close>,
  every edge \<open>P \<rightarrow> A\<close> becomes \<open>P \<rightarrow> new\<close> and \<open>new \<rightarrow> A\<close> is added; after an anchor, every
  edge \<open>A \<rightarrow> S\<close> becomes \<open>new \<rightarrow> S\<close> and \<open>A \<rightarrow> new\<close> is added; at the start the new node
  precedes every entry node; at the end it succeeds every terminal node.
\<close>

definition splice :: "Conventions \<Rightarrow> GNode \<Rightarrow> anchor_mode \<times> GNode option \<Rightarrow> Graph \<Rightarrow> Graph" where
  "splice cv new place g =
     (case place of
        (beforeLabelMatch, Some a) \<Rightarrow>
          \<lparr> g_nodes = g_nodes g @ [new],
            g_edges = map (\<lambda>e. if targetNodeId e = gn_id a then e \<lparr> targetNodeId := gn_id new \<rparr> else e)
                          (g_edges g)
                      @ [link cv (gn_id new) (gn_id a)] \<rparr>
      | (afterLabelMatch, Some a) \<Rightarrow>
          \<lparr> g_nodes = g_nodes g @ [new],
            g_edges = map (\<lambda>e. if sourceNodeId e = gn_id a then e \<lparr> sourceNodeId := gn_id new \<rparr> else e)
                          (g_edges g)
                      @ [link cv (gn_id a) (gn_id new)] \<rparr>
      | (atEnd, _) \<Rightarrow>
          \<lparr> g_nodes = g_nodes g @ [new],
            g_edges = g_edges g @ map (\<lambda>t. link cv (gn_id t) (gn_id new)) (terminal_nodes g) \<rparr>
      | _ \<Rightarrow>
          \<lparr> g_nodes = g_nodes g @ [new],
            g_edges = g_edges g @ map (\<lambda>t. link cv (gn_id new) (gn_id t)) (entry_nodes g) \<rparr>)"

text \<open>
  Modelled from the spec: one required step, steps 1 to 5 of section 4.2: skip when
  satisfied; otherwise synthesize, resolve the anchor, splice and validate.
\<close>

definition enforce_step ::
  "Conventions \<Rightarrow> RequiredStep \<Rightarrow> Graph \<Rightarrow> enforce_error + (Graph \<times> warning list)" where
  "enforce_step cv s g =
     (if satisfied s g then Inr (g, [])
      else
        (let new = synthesize cv g s;
             (place, warnings) = resolve_anchor s g;
             g' = splice cv new place g
         in case validate g' of
              [] \<Rightarrow> Inr (g', warnings)
            | issues \<Rightarrow> Inl (ValidationError issues)))"

text \<open>
  Modelled from the spec: \<open>enforce(graph, ruleSet)\<close> of section 4.2, the required steps
  in the declared order, on a copy of the graph; the first validation error ends it.
\<close>

fun enforce ::
  "Conventions \<Rightarrow> RequiredStep list \<Rightarrow> Graph \<Rightarrow> enforce_error + (Graph \<times> warning list)" where
  "enforce cv [] g = Inr (g, [])"
| "enforce cv (s # ruleSet) g =
     (case enforce_step cv s g of
        Inl e \<Rightarrow> Inl e
      | Inr (g1, w1) \<Rightarrow>
          (case enforce cv ruleSet g1 of
             Inl e \<Rightarrow> Inl e
           | Inr (g2, w2) \<Rightarrow> Inr (g2, w1 @ w2)))"

section \<open>Example graphs\<close>

definition mk_node :: "string \<Rightarrow> string \<Rightarrow> string \<Rightarrow> bool \<Rightarrow> Node" where
  "mk_node i k l lk = \<lparr> node_id = i, position = \<lparr> xpos = 0, ypos = 0 \<rparr>,
     data = \<lparr> label = Some l, nodeType = k, locked = lk,
              compliance_reason = (if lk then Some ''Required for financial compliance'' else None),
              description = None \<rparr> \<rparr>"

definition mk_edge :: "string \<Rightarrow> string \<Rightarrow> string \<Rightarrow> Edge" where
  "mk_edge i s t = \<lparr> edge_id = i, source = s, target = t \<rparr>"

definition ex_start :: Node where "ex_start = mk_node ''n4'' ''trigger'' ''Start'' False"
definition ex_scan :: Node where "ex_scan = mk_node ''n3'' ''security'' ''Scan'' False"
definition ex_sched :: Node where "ex_sched = mk_node ''n5'' ''trigger'' ''Daily Schedule'' False"
definition ex_email :: Node where "ex_email = mk_node ''n2'' ''action'' ''Send Email'' False"
definition ex_hook :: Node where "ex_hook = mk_node ''n1'' ''trigger'' ''Order Webhook'' False"
definition ex_transform :: Node where
  "ex_transform = mk_node ''n10'' ''action'' ''Transform Order'' False"
definition ex_notify1 :: Node where "ex_notify1 = mk_node ''n6'' ''notification'' ''Notify'' False"
definition ex_notify2 :: Node where "ex_notify2 = mk_node ''n7'' ''notification'' ''Notify'' False"

text \<open>
  The labels of the examples are ASCII strings, for which \<open>toLowerCase\<close> does not
  consult the Unicode case mapping; \<open>unicode_unused\<close> stands in its place.
\<close>

definition unicode_unused :: "string \<Rightarrow> string" where
  "unicode_unused s = s"

text \<open>
  A trigger whose label holds both keywords, a trigger that came without a label, and
  two nodes the user has named \<open>__proto__\<close>.
\<close>

definition ex_both :: Node where "ex_both = mk_node ''n11'' ''trigger'' ''schedule webhook'' False"
definition ex_unlabelled :: Node where
  "ex_unlabelled = \<lparr> node_id = ''n12'', position = \<lparr> xpos = 0, ypos = 0 \<rparr>,
     data = \<lparr> label = None, nodeType = ''trigger'', locked = False,
              compliance_reason = None, description = None \<rparr> \<rparr>"
definition ex_proto1 :: Node where "ex_proto1 = mk_node ''p1'' ''action'' ''__proto__'' False"
definition ex_proto2 :: Node where "ex_proto2 = mk_node ''p2'' ''action'' ''__proto__'' False"

definition ex_proto_nodes :: "Node list" where "ex_proto_nodes = [ex_proto1, ex_email]"
definition ex_proto_edges :: "Edge list" where "ex_proto_edges = [mk_edge ''e1'' ''p1'' ''n2'']"

definition ex_proto_twins :: "Node list" where "ex_proto_twins = [ex_proto1, ex_proto2, ex_email]"
definition ex_twin_edges :: "Edge list" where
  "ex_twin_edges = [mk_edge ''e1'' ''p1'' ''n2'', mk_edge ''e2'' ''p2'' ''n2'']"

definition ex_nodes :: "Node list" where "ex_nodes = [ex_hook, ex_email, ex_notify1, ex_notify2]"
definition ex_edges :: "Edge list" where
  "ex_edges = [mk_edge ''e1'' ''n1'' ''n2'', mk_edge ''e2'' ''n2'' ''n6'', mk_edge ''e3'' ''n2'' ''n7'']"

definition ex_fraud :: Node where
  "ex_fraud = mk_node ''n8'' ''validation'' ''Fraud Risk Assessment'' True"
definition ex_payment :: Node where
  "ex_payment = mk_node ''n9'' ''action'' ''Process Payment'' False"

definition ex_builder :: BuilderState where
  "ex_builder = \<lparr> st_nodes = [ex_hook, ex_fraud, ex_payment],
                   st_edges = [mk_edge ''e1'' ''n1'' ''n8'', mk_edge ''e2'' ''n8'' ''n9''],
                   st_selectedNodes = [''n8''] \<rparr>"

definition ex_builder2 :: BuilderState where
  "ex_builder2 = ex_builder \<lparr> st_selectedNodes := [''n9''] \<rparr>"

definition ex_canvas :: CanvasState where
  "ex_canvas = \<lparr> cv_nodes = [ex_hook, ex_fraud, ex_payment],
                  cv_edges = [mk_edge ''e1'' ''n1'' ''n8'', mk_edge ''e2'' ''n8'' ''n9''],
                  cv_contextMenu = \<lparr> cm_show = True, cm_x = 10, cm_y = 10, cm_node = Some ex_fraud \<rparr>,
                  cv_showNodeDetails = False,
                  cv_showNodeToolbar = False \<rparr>"

definition ex_row :: "Node list" where
  "ex_row = [mk_node ''t1'' ''trigger'' ''Order Webhook'' False,
             mk_node ''t2'' ''trigger'' ''Daily Schedule'' False,
             mk_node ''t3'' ''manual'' ''Start'' False,
             mk_node ''v1'' ''validation'' ''Fraud Risk Assessment'' True]"

definition ex_finance :: "Node list" where
  "ex_finance = [mk_node ''f1'' ''trigger'' ''Invoice Received'' False,
                 mk_node ''f2'' ''validation'' ''Fraud Risk Assessment'' True,
                 mk_node ''f3'' ''action'' ''Process Payment'' False,
                 mk_node ''f4'' ''audit'' ''Transaction Audit'' True]"

definition ex_conventions :: Conventions where
  "ex_conventions =
     \<lparr> kind_of = (\<lambda>t. if t = ''audit'' then Audit else Validation),
       node_id_for = (\<lambda>g s. ''compliance-'' @ rs_complianceType s),
       edge_id_for = (\<lambda>a b. a @ ''->'' @ b) \<rparr>"

definition ex_invoice :: GNode where
  "ex_invoice = \<lparr> gn_id = ''n1'', gn_kind = Trigger, gn_label = ''Invoice Received'',
     gn_description = '''', gn_position = (0, 0), gn_locked = False,
     gn_complianceReason = None, gn_domainTag = Some ''finance'', gn_complianceType = None \<rparr>"

definition ex_process :: GNode where
  "ex_process = \<lparr> gn_id = ''n2'', gn_kind = Action, gn_label = ''Process Payment'',
     gn_description = '''', gn_position = (0, 0), gn_locked = False,
     gn_complianceReason = None, gn_domainTag = Some ''finance'', gn_complianceType = None \<rparr>"

definition ex_graph :: Graph where
  "ex_graph = \<lparr> g_nodes = [ex_invoice, ex_process],
                 g_edges = [\<lparr> ge_id = ''e1'', sourceNodeId = ''n1'', targetNodeId = ''n2'' \<rparr>] \<rparr>"

definition ex_rules :: "RequiredStep list" where
  "ex_rules =
     [\<lparr> rs_label = ''Fraud Risk Assessment'', rs_complianceType = ''fraud'',
        rs_anchor = \<lparr> an_mode = beforeLabelMatch, an_matchKeyword = Some ''Payment'' \<rparr>,
        rs_reason = ''Required for financial compliance'' \<rparr>,
      \<lparr> rs_label = ''Transaction Audit'', rs_complianceType = ''audit'',
        rs_anchor = \<lparr> an_mode = afterLabelMatch, an_matchKeyword = Some ''Payment'' \<rparr>,
        rs_reason = ''Required for financial audit'' \<rparr>]"

definition ex_fraud_node :: GNode where
  "ex_fraud_node = \<lparr> gn_id = ''compliance-fraud'', gn_kind = Validation,
     gn_label = ''Fraud Risk Assessment'', gn_description = ''Required for financial compliance'',
     gn_position = (0, 0), gn_locked = True,
     gn_complianceReason = Some ''Required for financial compliance'', gn_domainTag = None,
     gn_complianceType = Some ''fraud'' \<rparr>"

definition ex_audit_node :: GNode where
  "ex_audit_node = \<lparr> gn_id = ''compliance-audit'', gn_kind = Audit,
     gn_label = ''Transaction Audit'', gn_description = ''Required for financial audit'',
     gn_position = (0, 0), gn_locked = True,
     gn_complianceReason = Some ''Required for financial audit'', gn_domainTag = None,
     gn_complianceType = Some ''audit'' \<rparr>"

definition ex_enforced :: Graph where
  "ex_enforced =
     \<lparr> g_nodes = [ex_invoice, ex_process, ex_fraud_node, ex_audit_node],
       g_edges = [\<lparr> ge_id = ''e1'', sourceNodeId = ''n1'', targetNodeId = ''compliance-fraud'' \<rparr>,
                  \<lparr> ge_id = ''compliance-fraud->n2'', sourceNodeId = ''compliance-fraud'',
                    targetNodeId = ''n2'' \<rparr>,
                  \<lparr> ge_id = ''n2->compliance-audit'', sourceNodeId = ''n2'',
                    targetNodeId = ''compliance-audit'' \<rparr>] \<rparr>"

section \<open>Properties of the translator\<close>

lemmas mapping_defs =
  trigger_webhook_def trigger_schedule_def trigger_manual_def action_http_request_def
  action_email_def action_database_def action_llm_call_def action_code_def
  mapping_condition_def mapping_notification_def default_function_def

lemma str_includes_sublist: "str_includes s sub \<longleftrightarrow> sublist sub s"
  by (induction s) (auto simp: sublist_Cons_right)

lemma sublist_ascii_toLowerCase:
  assumes "sublist k s" and "ascii_toLowerCase k = k"
  shows "sublist k (ascii_toLowerCase s)"
proof -
  from assms(1) obtain ps ss where "s = ps @ k @ ss" by (auto simp: sublist_def)
  then have "ascii_toLowerCase s = ascii_toLowerCase ps @ k @ ascii_toLowerCase ss"
    using assms(2) by (simp add: ascii_toLowerCase_def)
  then show ?thesis by (auto simp: sublist_def)
qed

lemma label_toLowerCase_Some:
  "label (data node) = Some l \<Longrightarrow> label_toLowerCase unicode node = Inr (toLowerCase unicode l)"
  by (simp add: label_toLowerCase_def)

lemma label_toLowerCase_None:
  "label (data node) = None \<Longrightarrow> label_toLowerCase unicode node = Inl TypeError"
  by (simp add: label_toLowerCase_def)

lemmas ex_defs = ex_start_def ex_scan_def ex_sched_def ex_email_def ex_hook_def ex_notify1_def
  ex_notify2_def ex_both_def ex_unlabelled_def ex_proto1_def ex_proto2_def mk_node_def mk_edge_def

text \<open>What \<open>convertNode\<close> returns for a trigger that has a label.\<close>

lemma convertNode_trigger:
  assumes \<open>nodeType (data node) = ''trigger''\<close> and \<open>label (data node) = Some l\<close>
  shows \<open>convertNode unicode r node =
     Inr (if sublist ''webhook'' (toLowerCase unicode l) then
            \<lparr> n8n_id = node_id node, n8n_name = Some l, n8n_type = ''n8n-nodes-base.webhook'',
              typeVersion = 1, n8n_position = (xpos (position node), ypos (position node)),
              parameters = [(''httpMethod'', JString ''POST''),
                            (''path'', JString (''nodex-'' @ node_id node)),
                            (''responseMode'', JString ''onReceived''),
                            (''responseData'', JString ''{ "success": true, "message": "Workflow triggered" }'')],
              webhookId = Some (''nodex-'' @ r) \<rparr>
          else if sublist ''schedule'' (toLowerCase unicode l) then
            \<lparr> n8n_id = node_id node, n8n_name = Some l, n8n_type = ''n8n-nodes-base.cron'',
              typeVersion = 1, n8n_position = (xpos (position node), ypos (position node)),
              parameters = [(''rule'', JObject [(''interval'', JArray [JObject
                               [(''field'', JString ''cronExpression''),
                                (''cronExpression'', JString ''0 9 * * *'')]])])],
              webhookId = None \<rparr>
          else
            \<lparr> n8n_id = node_id node, n8n_name = Some l, n8n_type = ''n8n-nodes-base.manualTrigger'',
              typeVersion = 1, n8n_position = (xpos (position node), ypos (position node)),
              parameters = [], webhookId = None \<rparr>)\<close>
  using assms
  by (simp add: convertNode_def getN8nNodeType_def getNodeParameters_def getTriggerParameters_def
      label_toLowerCase_def str_includes_sublist mapping_defs generateWebhookId_def)


text \<open>
  C6, as the code has it. The external type of a trigger node is inferred from its label
  in lower case, with \<open>webhook\<close> read before \<open>schedule\<close>: a label containing
  "webhook" gives the webhook trigger; a label containing "schedule" and not
  "webhook" gives the cron trigger; any other label gives the manual trigger. The
  parameter block emitted for a webhook trigger holds the HTTP method, the path \<open>nodex-\<close>
  followed by the node's id, and the response template. On an ASCII label, containing
  the word as written is enough.
\<close>

theorem trigger_type_inference:
  assumes \<open>nodeType (data node) = ''trigger''\<close> and \<open>label (data node) = Some l\<close>
  shows \<open>\<exists>n. convertNode unicode r node = Inr n
       \<and> (sublist ''webhook'' (toLowerCase unicode l) \<longrightarrow>
            n8n_type n = ''n8n-nodes-base.webhook''
            \<and> map_of (parameters n) ''httpMethod'' = Some (JString ''POST'')
            \<and> map_of (parameters n) ''path'' = Some (JString (''nodex-'' @ node_id node))
            \<and> map_of (parameters n) ''responseData''
                = Some (JString ''{ "success": true, "message": "Workflow triggered" }''))
       \<and> (\<not> sublist ''webhook'' (toLowerCase unicode l)
            \<and> sublist ''schedule'' (toLowerCase unicode l) \<longrightarrow>
            n8n_type n = ''n8n-nodes-base.cron'')
       \<and> (\<not> sublist ''webhook'' (toLowerCase unicode l)
            \<and> \<not> sublist ''schedule'' (toLowerCase unicode l) \<longrightarrow>
            n8n_type n = ''n8n-nodes-base.manualTrigger'')
       \<and> (is_ascii l \<and> sublist ''webhook'' l \<longrightarrow> n8n_type n = ''n8n-nodes-base.webhook'')
       \<and> (is_ascii l \<and> sublist ''schedule'' l \<and> \<not> sublist ''webhook'' (toLowerCase unicode l) \<longrightarrow>
            n8n_type n = ''n8n-nodes-base.cron'')\<close>
proof -
  have w: "ascii_toLowerCase ''webhook'' = ''webhook''" by code_simp
  have s: "ascii_toLowerCase ''schedule'' = ''schedule''" by code_simp
  have lw: "is_ascii l \<Longrightarrow> sublist ''webhook'' l \<Longrightarrow> sublist ''webhook'' (toLowerCase unicode l)"
    using sublist_ascii_toLowerCase[OF _ w] by (simp add: toLowerCase_def)
  have ls: "is_ascii l \<Longrightarrow> sublist ''schedule'' l \<Longrightarrow> sublist ''schedule'' (toLowerCase unicode l)"
    using sublist_ascii_toLowerCase[OF _ s] by (simp add: toLowerCase_def)
  show ?thesis
    unfolding convertNode_trigger[OF assms] using lw ls by auto
qed

lemma ex_lower:
  "toLowerCase unicode ''Order Webhook'' = ''order webhook''"
  "toLowerCase unicode ''Daily Schedule'' = ''daily schedule''"
  "toLowerCase unicode ''Start'' = ''start''"
  "toLowerCase unicode ''Scan'' = ''scan''"
  "toLowerCase unicode ''Send Email'' = ''send email''"
  "toLowerCase unicode ''Transform Order'' = ''transform order''"
  "toLowerCase unicode ''schedule webhook'' = ''schedule webhook''"
  "toLowerCase unicode ''__proto__'' = ''__proto__''"
proof -
  have a: "is_ascii ''Order Webhook''" "is_ascii ''Daily Schedule''" "is_ascii ''Start''"
    "is_ascii ''Scan''" "is_ascii ''Send Email''" "is_ascii ''Transform Order''"
    "is_ascii ''schedule webhook''" "is_ascii ''__proto__''"
    by code_simp+
  have b: "ascii_toLowerCase ''Order Webhook'' = ''order webhook''"
    "ascii_toLowerCase ''Daily Schedule'' = ''daily schedule''"
    "ascii_toLowerCase ''Start'' = ''start''"
    "ascii_toLowerCase ''Scan'' = ''scan''"
    "ascii_toLowerCase ''Send Email'' = ''send email''"
    "ascii_toLowerCase ''Transform Order'' = ''transform order''"
    "ascii_toLowerCase ''schedule webhook'' = ''schedule webhook''"
    "ascii_toLowerCase ''__proto__'' = ''__proto__''"
    by code_simp+
  show "toLowerCase unicode ''Order Webhook'' = ''order webhook''"
    "toLowerCase unicode ''Daily Schedule'' = ''daily schedule''"
    "toLowerCase unicode ''Start'' = ''start''"
    "toLowerCase unicode ''Scan'' = ''scan''"
    "toLowerCase unicode ''Send Email'' = ''send email''"
    "toLowerCase unicode ''Transform Order'' = ''transform order''"
    "toLowerCase unicode ''schedule webhook'' = ''schedule webhook''"
    "toLowerCase unicode ''__proto__'' = ''__proto__''"
    using a b by (simp_all add: toLowerCase_def)
qed

theorem trigger_type_inference_witness:
  \<open>nodeType (data ex_hook) = ''trigger'' \<and> label (data ex_hook) = Some ''Order Webhook''
   \<and> nodeType (data ex_sched) = ''trigger'' \<and> label (data ex_sched) = Some ''Daily Schedule''
   \<and> nodeType (data ex_start) = ''trigger'' \<and> label (data ex_start) = Some ''Start''
   \<and> (\<exists>n. convertNode unicode_unused ''r4nd0m'' ex_hook = Inr n
          \<and> n8n_type n = ''n8n-nodes-base.webhook''
          \<and> map_of (parameters n) ''httpMethod'' = Some (JString ''POST'')
          \<and> map_of (parameters n) ''path'' = Some (JString ''nodex-n1''))
   \<and> (\<exists>n. convertNode unicode_unused ''r4nd0m'' ex_sched = Inr n \<and> n8n_type n = ''n8n-nodes-base.cron'')
   \<and> (\<exists>n. convertNode unicode_unused ''r4nd0m'' ex_start = Inr n
          \<and> n8n_type n = ''n8n-nodes-base.manualTrigger'')\<close>
proof -
  have t: "nodeType (data ex_hook) = ''trigger''" "nodeType (data ex_sched) = ''trigger''"
    "nodeType (data ex_start) = ''trigger''"
    by (simp_all add: ex_defs)
  have l: "label (data ex_hook) = Some ''Order Webhook''" "label (data ex_sched) = Some ''Daily Schedule''"
    "label (data ex_start) = Some ''Start''"
    by (simp_all add: ex_defs)
  have h: "sublist ''webhook'' (toLowerCase unicode_unused ''Order Webhook'')"
    unfolding str_includes_sublist[symmetric] ex_lower by code_simp
  have s: "\<not> sublist ''webhook'' (toLowerCase unicode_unused ''Daily Schedule'')"
    "sublist ''schedule'' (toLowerCase unicode_unused ''Daily Schedule'')"
    unfolding str_includes_sublist[symmetric] ex_lower by code_simp+
  have m: "\<not> sublist ''webhook'' (toLowerCase unicode_unused ''Start'')"
    "\<not> sublist ''schedule'' (toLowerCase unicode_unused ''Start'')"
    unfolding str_includes_sublist[symmetric] ex_lower by code_simp+
  have i: "node_id ex_hook = ''n1''" by (simp add: ex_defs)
  have 1: "\<exists>n. convertNode unicode_unused ''r4nd0m'' ex_hook = Inr n
          \<and> n8n_type n = ''n8n-nodes-base.webhook''
          \<and> map_of (parameters n) ''httpMethod'' = Some (JString ''POST'')
          \<and> map_of (parameters n) ''path'' = Some (JString ''nodex-n1'')"
    using trigger_type_inference[OF t(1) l(1), of unicode_unused "''r4nd0m''"] h i by auto
  have 2: "\<exists>n. convertNode unicode_unused ''r4nd0m'' ex_sched = Inr n \<and> n8n_type n = ''n8n-nodes-base.cron''"
    using trigger_type_inference[OF t(2) l(2), of unicode_unused "''r4nd0m''"] s by auto
  have 3: "\<exists>n. convertNode unicode_unused ''r4nd0m'' ex_start = Inr n
          \<and> n8n_type n = ''n8n-nodes-base.manualTrigger''"
    using trigger_type_inference[OF t(3) l(3), of unicode_unused "''r4nd0m''"] m by auto
  show ?thesis using t l 1 2 3 by blast
qed

text \<open>
  A trigger labelled \<open>schedule webhook\<close>: its label contains "schedule", and its type
  is the webhook trigger, not the cron trigger. And a trigger that came without a label:
  no type is inferred, the converter raises a \<open>TypeError\<close>.
\<close>

theorem trigger_precedence_counterexample:
  \<open>nodeType (data ex_both) = ''trigger''
   \<and> label (data ex_both) = Some ''schedule webhook''
   \<and> sublist ''schedule'' ''schedule webhook''
   \<and> getN8nNodeType unicode_unused ex_both = Inr ''n8n-nodes-base.webhook''
   \<and> nodeType (data ex_unlabelled) = ''trigger''
   \<and> label (data ex_unlabelled) = None
   \<and> getN8nNodeType unicode_unused ex_unlabelled = Inl TypeError\<close>
proof -
  have u: "nodeType (data ex_unlabelled) = ''trigger''" "label (data ex_unlabelled) = None"
    by (simp_all add: ex_defs)
  have v: "getN8nNodeType unicode_unused ex_unlabelled = Inl TypeError"
    by (simp add: getN8nNodeType_def u(1) label_toLowerCase_None[OF u(2)])
  have a: "sublist ''schedule'' ''schedule webhook''"
    unfolding str_includes_sublist[symmetric] by code_simp
  have b: "str_includes ''schedule webhook'' ''webhook''" by code_simp
  have t: "nodeType (data ex_both) = ''trigger''" "label (data ex_both) = Some ''schedule webhook''"
    by (simp_all add: ex_defs)
  have l: "label_toLowerCase unicode_unused ex_both = Inr ''schedule webhook''"
    by (simp add: label_toLowerCase_Some[OF t(2)] ex_lower)
  have "getN8nNodeType unicode_unused ex_both = Inr ''n8n-nodes-base.webhook''"
    by (simp add: getN8nNodeType_def t(1) l b mapping_defs)
  then show ?thesis using a t u v by simp
qed

subsection \<open>The connection map\<close>

lemma init_connections_eq:
  "init_connections nodes =
     \<lparr> own = (\<lambda>k. if k \<noteq> ''__proto__'' \<and> k \<in> key_of ` set nodes then Some empty_connection else None),
       prototype = (if ''__proto__'' \<in> key_of ` set nodes then Some empty_connection else None) \<rparr>"
proof -
  have "fold (\<lambda>node conns. assign_property (template_string (label (data node))) empty_connection conns)
          nodes c =
        \<lparr> own = (\<lambda>k. if k \<noteq> ''__proto__'' \<and> k \<in> key_of ` set nodes then Some empty_connection
                       else own c k),
          prototype = (if ''__proto__'' \<in> key_of ` set nodes then Some empty_connection
                       else prototype c) \<rparr>" for c
  proof (induction nodes arbitrary: c)
    case Nil
    show ?case by simp
  next
    case (Cons n ns)
    show ?case
      unfolding fold_simps Cons.IH
      by (auto simp: assign_property_def key_of_def fun_eq_iff)
  qed
  then show ?thesis by (auto simp: init_connections_def fun_eq_iff)
qed

lemma find_Some_key: "find P nodes = Some s \<Longrightarrow> key_of s \<in> key_of ` set nodes"
  by (auto simp: find_Some_iff)

lemma adjacency_snoc:
  "adjacency nodes (es @ [e]) l =
     adjacency nodes es l @
       (case edge_entry nodes e of Some (k, t) \<Rightarrow> if k = l then [t] else [] | None \<Rightarrow> [])"
  by (auto simp: adjacency_def List.map_filter_def split: option.splits)

lemma add_edge_connection_eq:
  "add_edge_connection nodes e conns =
     (case edge_entry nodes e of
        None \<Rightarrow> conns
      | Some (k, t) \<Rightarrow>
          push_property k t
            (case get_property k conns of
               None \<Rightarrow> assign_property k empty_connection conns
             | Some c \<Rightarrow> conns))"
  by (auto simp: add_edge_connection_def edge_entry_def key_of_def Let_def split: option.splits)

lemma edge_entry_key: "edge_entry nodes e = Some (k, t) \<Longrightarrow> k \<in> key_of ` set nodes"
  by (auto simp: edge_entry_def find_Some_key split: option.splits)

text \<open>
  The connection object after both loops: the labels other than \<open>__proto__\<close> are its
  keys, each with the entries of the edges that leave a node of that label, in the
  order of the edges; the entries of the edges that leave a node labelled \<open>__proto__\<close>
  are on the prototype.
\<close>

lemma convertConnections_eq:
  "convertConnections nodes edges =
     \<lparr> own = (\<lambda>k. if k \<noteq> ''__proto__'' \<and> k \<in> key_of ` set nodes
                   then Some \<lparr> main = [adjacency nodes edges k] \<rparr> else None),
       prototype = (if ''__proto__'' \<in> key_of ` set nodes
                    then Some \<lparr> main = [adjacency nodes edges ''__proto__''] \<rparr> else None) \<rparr>"
proof (induction edges rule: rev_induct)
  case Nil
  show ?case
    by (auto simp: convertConnections_def init_connections_eq empty_connection_def adjacency_def
        List.map_filter_def fun_eq_iff)
next
  case (snoc e es)
  have step: "convertConnections nodes (es @ [e]) =
                add_edge_connection nodes e (convertConnections nodes es)"
    by (simp add: convertConnections_def)
  show ?case
  proof (cases "edge_entry nodes e")
    case None
    then show ?thesis
      by (auto simp: step snoc add_edge_connection_eq adjacency_snoc fun_eq_iff)
  next
    case (Some p)
    obtain k t where p: "p = (k, t)" by (cases p)
    have k: "k \<in> key_of ` set nodes"
      using Some p edge_entry_key by blast
    show ?thesis
    proof (cases "k = ''__proto__''")
      case True
      then show ?thesis
        using k Some p
        by (simp add: step snoc add_edge_connection_eq adjacency_snoc get_property_def
            push_property_def push_main0_def fun_eq_iff)
    next
      case False
      then show ?thesis
        using k Some p
        by (simp add: step snoc add_edge_connection_eq adjacency_snoc get_property_def
            push_property_def push_main0_def fun_eq_iff)
    qed
  qed
qed

text \<open>
  The second loop of \<open>convertConnections\<close> finds a connection under every key it reads:
  the branch that would create one is not taken.
\<close>

lemma source_key_found:
  assumes "edge_entry nodes e = Some (k, t)"
  shows "get_property k (convertConnections nodes es) \<noteq> None"
proof (cases "k = ''__proto__''")
  case True
  then have "''__proto__'' \<in> key_of ` set nodes" using edge_entry_key[OF assms] by simp
  then show ?thesis using True by (simp add: convertConnections_eq get_property_def)
next
  case False
  then show ?thesis
    using edge_entry_key[OF assms] by (simp add: convertConnections_eq get_property_def)
qed

lemma connection_keys:
  "dom (own (convertConnections nodes edges)) = key_of ` set nodes - {''__proto__''}"
  by (auto simp: convertConnections_eq dom_def)

lemma find_resolves:
  "i \<in> node_id ` set nodes \<Longrightarrow> \<exists>s. find (\<lambda>n. node_id n = i) nodes = Some s \<and> s \<in> set nodes \<and> node_id s = i"
  by (cases "find (\<lambda>n. node_id n = i) nodes") (auto simp: find_None_iff find_Some_iff)

lemma entry_in_adjacency:
  assumes "e \<in> set edges" and "edge_entry nodes e = Some (k, t)"
  shows "t \<in> set (adjacency nodes edges k)"
proof -
  have "(k, t) \<in> set (List.map_filter (edge_entry nodes) edges)"
    using assms by (force simp: List.map_filter_def)
  then show ?thesis by (force simp: adjacency_def)
qed

lemma fewer_keys_than_nodes:
  assumes "i < j" "j < length nodes" "key_of (nodes ! i) = key_of (nodes ! j)"
  shows "card (dom (own (convertConnections nodes edges))) < length nodes"
proof -
  let ?ls = "map key_of nodes"
  have "\<not> distinct ?ls"
  proof -
    have "i < length ?ls" "j < length ?ls" "i \<noteq> j" "?ls ! i = ?ls ! j"
      using assms by auto
    then show ?thesis unfolding distinct_conv_nth by blast
  qed
  then have "card (set ?ls) \<noteq> length ?ls"
    using card_distinct by blast
  moreover have "card (set ?ls) \<le> length ?ls" by (rule card_length)
  ultimately have "card (set ?ls) < length nodes" by simp
  moreover have "card (set ?ls - {''__proto__''}) \<le> card (set ?ls)"
    by (intro card_mono) auto
  ultimately show ?thesis by (simp add: connection_keys)
qed

lemma map_filter_map_id: "List.map_filter f xs = List.map_filter id (map f xs)"
  by (induction xs) (auto simp: List.map_filter_def)

lemma convertConnections_cong:
  assumes "map (edge_entry nodes) es' = map (edge_entry nodes) es"
  shows "convertConnections nodes es' = convertConnections nodes es"
proof -
  have "adjacency nodes es' l = adjacency nodes es l" for l
    using assms by (simp add: adjacency_def map_filter_map_id[of "edge_entry nodes"])
  then show ?thesis by (simp add: convertConnections_eq cong: if_cong)
qed

subsection \<open>Conversion of the nodes\<close>

text \<open>
  \<open>convertNode\<close> reads the label of a trigger and of an action through \<open>toLowerCase\<close>; a
  node of another kind, or one of these that has a label, is converted.
\<close>

lemma convertNode_returns:
  assumes "nodeType (data node) \<in> {''trigger'', ''action''} \<longrightarrow> label (data node) \<noteq> None"
  shows "\<exists>n. convertNode unicode r node = Inr n"
proof (cases "label (data node)")
  case None
  then have "nodeType (data node) \<noteq> ''trigger''" "nodeType (data node) \<noteq> ''action''"
    using assms by auto
  then show ?thesis
    by (simp add: convertNode_def getN8nNodeType_def getNodeParameters_def)
next
  case (Some l)
  have "\<exists>ty. getN8nNodeType unicode node = Inr ty"
    by (simp add: getN8nNodeType_def label_toLowerCase_Some[OF Some])
  moreover have "\<exists>ps. getNodeParameters unicode node = Inr ps"
    by (simp add: getNodeParameters_def getTriggerParameters_def getActionParameters_def
        label_toLowerCase_Some[OF Some] Let_def)
  ultimately show ?thesis
    by (auto simp: convertNode_def label_toLowerCase_Some[OF Some] Let_def)
qed

lemma convertNode_trigger_unlabelled:
  assumes "nodeType (data node) = ''trigger''" and "label (data node) = None"
  shows "convertNode unicode r node = Inl TypeError"
  using assms by (simp add: convertNode_def getN8nNodeType_def label_toLowerCase_def)

lemma convertNodes_from_returns:
  assumes "\<forall>n \<in> set nodes. nodeType (data n) \<in> {''trigger'', ''action''} \<longrightarrow> label (data n) \<noteq> None"
  shows "\<exists>ns. convertNodes_from unicode rnd i nodes = Inr ns \<and> length ns = length nodes
           \<and> (\<forall>j < length nodes. convertNode unicode (rnd (i + j)) (nodes ! j) = Inr (ns ! j))"
  using assms
proof (induction nodes arbitrary: i)
  case Nil
  show ?case by simp
next
  case (Cons n nodes)
  obtain x where x: "convertNode unicode (rnd i) n = Inr x"
    using convertNode_returns[of n unicode "rnd i"] Cons.prems by auto
  obtain xs where xs: "convertNodes_from unicode rnd (Suc i) nodes = Inr xs" "length xs = length nodes"
    "\<forall>j < length nodes. convertNode unicode (rnd (Suc i + j)) (nodes ! j) = Inr (xs ! j)"
    using Cons.IH[of "Suc i"] Cons.prems by auto
  have "\<forall>j < length (n # nodes). convertNode unicode (rnd (i + j)) ((n # nodes) ! j) = Inr ((x # xs) ! j)"
  proof (intro allI impI)
    fix j assume "j < length (n # nodes)"
    then show "convertNode unicode (rnd (i + j)) ((n # nodes) ! j) = Inr ((x # xs) ! j)"
      using x xs(3) by (cases j) auto
  qed
  then show ?case using x xs(1,2) by simp
qed

lemma convert_returns:
  assumes "\<forall>n \<in> set nodes. nodeType (data n) \<in> {''trigger'', ''action''} \<longrightarrow> label (data n) \<noteq> None"
  shows "\<exists>ns. convert unicode today rnd nodes edges =
                Inr \<lparr> wf_name = generateWorkflowName today nodes, wf_nodes = ns,
                      wf_connections = convertConnections nodes edges, wf_active = False,
                      wf_settings = [(''executionOrder'', JString ''v1'')], wf_staticData = [] \<rparr>
           \<and> length ns = length nodes
           \<and> (\<forall>i < length nodes. convertNode unicode (rnd i) (nodes ! i) = Inr (ns ! i))"
  using convertNodes_from_returns[OF assms, of unicode rnd 0]
  by (auto simp: convert_def convertNodes_def)

text \<open>
  For a graph in which no node is labelled \<open>__proto__\<close>, the document is as the
  specification has it: as many nodes as the graph, the labels as the keys of the
  connection map, an empty adjacency list under the label of a node without outgoing
  edges, and every edge as an entry under the label of its source.
\<close>

lemma translation_preserves_graph_without_proto:
  assumes "\<forall>e \<in> set edges. source e \<in> node_id ` set nodes \<and> target e \<in> node_id ` set nodes"
    and "\<forall>n \<in> set nodes. label (data n) \<noteq> None"
    and "''__proto__'' \<notin> key_of ` set nodes"
  shows "\<exists>w. convert unicode today rnd nodes edges = Inr w
       \<and> length (wf_nodes w) = length nodes
       \<and> dom (own (wf_connections w)) = key_of ` set nodes
       \<and> (\<forall>n \<in> set nodes. adjacency nodes edges (key_of n) = [] \<longrightarrow>
             own (wf_connections w) (key_of n) = Some \<lparr> main = [ [] ] \<rparr>)
       \<and> (\<forall>e \<in> set edges. \<exists>s t c.
             find (\<lambda>n. node_id n = source e) nodes = Some s
             \<and> find (\<lambda>n. node_id n = target e) nodes = Some t
             \<and> own (wf_connections w) (key_of s) = Some c
             \<and> \<lparr> conn_node = label (data t), conn_type = ''main'', conn_index = 0 \<rparr> \<in> set (main c ! 0))"
proof -
  obtain ns where w: "convert unicode today rnd nodes edges =
                Inr \<lparr> wf_name = generateWorkflowName today nodes, wf_nodes = ns,
                      wf_connections = convertConnections nodes edges, wf_active = False,
                      wf_settings = [(''executionOrder'', JString ''v1'')], wf_staticData = [] \<rparr>"
    and l: "length ns = length nodes"
    using convert_returns[of nodes unicode today rnd edges] assms(2) by auto
  have np: "key_of n \<noteq> ''__proto__''" if "n \<in> set nodes" for n
    using assms(3) that by (metis imageI)
  have keys: "dom (own (convertConnections nodes edges)) = key_of ` set nodes"
    using assms(3) by (simp add: connection_keys)
  have empty: "\<forall>n \<in> set nodes. adjacency nodes edges (key_of n) = [] \<longrightarrow>
             own (convertConnections nodes edges) (key_of n) = Some \<lparr> main = [ [] ] \<rparr>"
    using np by (simp add: convertConnections_eq)
  have entries: "\<forall>e \<in> set edges. \<exists>s t c.
             find (\<lambda>n. node_id n = source e) nodes = Some s
             \<and> find (\<lambda>n. node_id n = target e) nodes = Some t
             \<and> own (convertConnections nodes edges) (key_of s) = Some c
             \<and> \<lparr> conn_node = label (data t), conn_type = ''main'', conn_index = 0 \<rparr> \<in> set (main c ! 0)"
  proof
    fix e assume e: "e \<in> set edges"
    from assms(1) e obtain s t where
      s: "find (\<lambda>n. node_id n = source e) nodes = Some s" "s \<in> set nodes" and
      t: "find (\<lambda>n. node_id n = target e) nodes = Some t"
      using find_resolves by metis
    let ?t = "\<lparr> conn_node = label (data t), conn_type = ''main'', conn_index = 0 \<rparr>"
    have ee: "edge_entry nodes e = Some (key_of s, ?t)"
      using s t by (simp add: edge_entry_def)
    have "?t \<in> set (adjacency nodes edges (key_of s))"
      using entry_in_adjacency[OF e ee] .
    moreover have "own (convertConnections nodes edges) (key_of s)
                     = Some \<lparr> main = [adjacency nodes edges (key_of s)] \<rparr>"
      using s(2) np[OF s(2)] by (simp add: convertConnections_eq)
    ultimately show "\<exists>s t c.
             find (\<lambda>n. node_id n = source e) nodes = Some s
             \<and> find (\<lambda>n. node_id n = target e) nodes = Some t
             \<and> own (convertConnections nodes edges) (key_of s) = Some c
             \<and> \<lparr> conn_node = label (data t), conn_type = ''main'', conn_index = 0 \<rparr> \<in> set (main c ! 0)"
      using s t by auto
  qed
  show ?thesis
    unfolding w using l keys empty entries by simp
qed

text \<open>
  C2, at a label the code misses. The first loop of \<open>convertConnections\<close> is meant to
  make every node a key ("Initialize connections for all nodes"), but an assignment
  under the name \<open>__proto__\<close> creates no property. The graph has two nodes, the first
  labelled \<open>__proto__\<close>, and one edge from the first to the second; both ends of the
  edge resolve. The document has two nodes, and its connection map has the one key
  \<open>Send Email\<close>: the first node is no key of the map, and the entry of the edge is
  under no key (it was pushed onto the prototype, which \<open>JSON.stringify\<close> leaves out).
\<close>

theorem proto_label_is_no_key:
  "source ` set ex_proto_edges \<subseteq> node_id ` set ex_proto_nodes
   \<and> target ` set ex_proto_edges \<subseteq> node_id ` set ex_proto_nodes
   \<and> map (\<lambda>n. label (data n)) ex_proto_nodes = [Some ''__proto__'', Some ''Send Email'']
   \<and> map_sum id (\<lambda>w. length (wf_nodes w))
        (convert unicode_unused ''2025-01-01'' (\<lambda>i. ''r'') ex_proto_nodes ex_proto_edges) = Inr 2
   \<and> map_sum id wf_connections
        (convert unicode_unused ''2025-01-01'' (\<lambda>i. ''r'') ex_proto_nodes ex_proto_edges)
       = Inr \<lparr> own = [''Send Email'' \<mapsto> \<lparr> main = [ [] ] \<rparr>],
               prototype = Some \<lparr> main = [ [\<lparr> conn_node = Some ''Send Email'', conn_type = ''main'',
                                               conn_index = 0 \<rparr>] ] \<rparr> \<rparr>"
proof -
  have l: "\<forall>n \<in> set ex_proto_nodes. nodeType (data n) \<in> {''trigger'', ''action''} \<longrightarrow> label (data n) \<noteq> None"
    by (simp add: ex_proto_nodes_def ex_defs)
  have c: "convertConnections ex_proto_nodes ex_proto_edges
       = \<lparr> own = [''Send Email'' \<mapsto> \<lparr> main = [ [] ] \<rparr>],
           prototype = Some \<lparr> main = [ [\<lparr> conn_node = Some ''Send Email'', conn_type = ''main'',
                                           conn_index = 0 \<rparr>] ] \<rparr> \<rparr>"
    by (simp add: convertConnections_def init_connections_def add_edge_connection_def
        assign_property_def get_property_def push_property_def push_main0_def empty_connection_def
        template_string_def ex_proto_nodes_def ex_proto_edges_def ex_defs)
  have e: "source ` set ex_proto_edges \<subseteq> node_id ` set ex_proto_nodes"
    "target ` set ex_proto_edges \<subseteq> node_id ` set ex_proto_nodes"
    "map (\<lambda>n. label (data n)) ex_proto_nodes = [Some ''__proto__'', Some ''Send Email'']"
    by (simp_all add: ex_proto_nodes_def ex_proto_edges_def ex_defs)
  have n: "length ex_proto_nodes = 2" by (simp add: ex_proto_nodes_def)
  show ?thesis
    using convert_returns[OF l, of unicode_unused "''2025-01-01''" "\<lambda>i. ''r''" ex_proto_edges] c e n
    by auto
qed

text \<open>
  When two nodes carry the same label, the connection map has fewer keys than the graph
  has nodes; unless the label is \<open>__proto__\<close>, the edges leaving either node are merged
  in the one adjacency list under the shared label; and redirecting the source or the
  target of an edge from one of the two nodes to the other leaves the connection map
  unchanged.
\<close>

lemma same_label_nodes_merge_without_proto:
  assumes "i < j" and "j < length nodes"
    and "label (data (nodes ! i)) = label (data (nodes ! j))"
  shows "card (dom (own (convertConnections nodes edges))) < length nodes
       \<and> (key_of (nodes ! i) \<noteq> ''__proto__'' \<longrightarrow>
            own (convertConnections nodes edges) (key_of (nodes ! i))
              = Some \<lparr> main = [adjacency nodes edges (key_of (nodes ! j))] \<rparr>)
       \<and> (\<forall>(e::Edge) (e'::Edge) pre post.
             find (\<lambda>n. node_id n = source e) nodes = Some (nodes ! i)
             \<and> find (\<lambda>n. node_id n = source e') nodes = Some (nodes ! j)
             \<and> target e' = target e \<longrightarrow>
             convertConnections nodes (pre @ e' # post) = convertConnections nodes (pre @ e # post))
       \<and> (\<forall>(e::Edge) (e'::Edge) pre post.
             find (\<lambda>n. node_id n = target e) nodes = Some (nodes ! i)
             \<and> find (\<lambda>n. node_id n = target e') nodes = Some (nodes ! j)
             \<and> source e' = source e \<longrightarrow>
             convertConnections nodes (pre @ e' # post) = convertConnections nodes (pre @ e # post))"
proof (intro conjI allI impI)
  have k: "key_of (nodes ! i) = key_of (nodes ! j)" using assms(3) by (simp add: key_of_def)
  show "card (dom (own (convertConnections nodes edges))) < length nodes"
    using assms(1,2) k by (rule fewer_keys_than_nodes)
  have "nodes ! i \<in> set nodes" using assms by simp
  then have "key_of (nodes ! i) \<in> key_of ` set nodes" by (rule imageI)
  then show "own (convertConnections nodes edges) (key_of (nodes ! i))
              = Some \<lparr> main = [adjacency nodes edges (key_of (nodes ! j))] \<rparr>"
    if "key_of (nodes ! i) \<noteq> ''__proto__''"
    using that k by (simp add: convertConnections_eq)
next
  fix e e' :: Edge and pre post :: "Edge list"
  assume "find (\<lambda>n. node_id n = source e) nodes = Some (nodes ! i)
             \<and> find (\<lambda>n. node_id n = source e') nodes = Some (nodes ! j)
             \<and> target e' = target e"
  then have "edge_entry nodes e' = edge_entry nodes e"
    using assms(3) by (auto simp: edge_entry_def key_of_def split: option.splits)
  then show "convertConnections nodes (pre @ e' # post) = convertConnections nodes (pre @ e # post)"
    by (intro convertConnections_cong) simp
next
  fix e e' :: Edge and pre post :: "Edge list"
  assume "find (\<lambda>n. node_id n = target e) nodes = Some (nodes ! i)
             \<and> find (\<lambda>n. node_id n = target e') nodes = Some (nodes ! j)
             \<and> source e' = source e"
  then have "edge_entry nodes e' = edge_entry nodes e"
    using assms(3) by (auto simp: edge_entry_def split: option.splits)
  then show "convertConnections nodes (pre @ e' # post) = convertConnections nodes (pre @ e # post)"
    by (intro convertConnections_cong) simp
qed

text \<open>
  C9, at a label the code misses. Two nodes labelled \<open>__proto__\<close>, each with an edge to
  a third node: no key of the connection map is shared by the two, as neither is a key;
  the map has the one key \<open>Send Email\<close>, with an empty adjacency list, and the two
  entries are merged on the prototype of the object, outside the document.
\<close>

theorem proto_twins_share_no_key:
  "map (\<lambda>n. label (data n)) ex_proto_twins = [Some ''__proto__'', Some ''__proto__'', Some ''Send Email'']
   \<and> map source ex_twin_edges = map node_id [ex_proto1, ex_proto2]
   \<and> convertConnections ex_proto_twins ex_twin_edges
       = \<lparr> own = [''Send Email'' \<mapsto> \<lparr> main = [ [] ] \<rparr>],
           prototype = Some \<lparr> main = [ [\<lparr> conn_node = Some ''Send Email'', conn_type = ''main'',
                                           conn_index = 0 \<rparr>,
                                         \<lparr> conn_node = Some ''Send Email'', conn_type = ''main'',
                                           conn_index = 0 \<rparr>] ] \<rparr> \<rparr>"
  by (simp add: convertConnections_def init_connections_def add_edge_connection_def
      assign_property_def get_property_def push_property_def push_main0_def empty_connection_def
      template_string_def ex_proto_twins_def ex_twin_edges_def ex_defs)

subsection \<open>Fallback templates\<close>

text \<open>
  C7, as the code has it. A node whose kind is none of trigger, action, condition,
  validation and notification gets the function type with the generic \<open>functionCode\<close>
  template; an action whose label matches no keyword gets the code type with a
  \<open>functionCode\<close> template; a trigger whose label matches no keyword is a manual trigger
  with an empty parameter block. When every trigger and every action of the graph has a
  label, translation returns a document, with one converted node for each node of the
  graph. The result is the workflow document alone.
\<close>

theorem translation_fallback:
  \<open>(nodeType (data node) \<notin> {''trigger'', ''action'', ''condition'', ''validation'', ''notification''} \<longrightarrow>
      (\<exists>n. convertNode unicode r node = Inr n
         \<and> n8n_type n = ''n8n-nodes-base.function''
         \<and> parameters n
             = [(''functionCode'',
                 JString (''// '' @ template_string (label (data node)) @ ''\<newline>return items;''))]))
   \<and> (nodeType (data node) = ''action'' \<and> label (data node) = Some l
      \<and> (\<forall>k \<in> {''llm'', ''ai'', ''gpt'', ''email'', ''database'', ''db'', ''http'', ''api''}.
            \<not> sublist k (toLowerCase unicode l)) \<longrightarrow>
      (\<exists>n. convertNode unicode r node = Inr n
         \<and> n8n_type n = ''n8n-nodes-base.code''
         \<and> parameters n
             = [(''functionCode'', JString (''// '' @ toLowerCase unicode l @ ''\<newline>// ''
                  @ (case description (data node) of None \<Rightarrow> [] | Some d \<Rightarrow> d)
                  @ ''\<newline>return items.map(item => {\<newline>  // Process item here\<newline>  return item.json;\<newline>});''))]))
   \<and> (nodeType (data node) = ''trigger'' \<and> label (data node) = Some l
      \<and> \<not> sublist ''webhook'' (toLowerCase unicode l)
      \<and> \<not> sublist ''schedule'' (toLowerCase unicode l) \<longrightarrow>
      (\<exists>n. convertNode unicode r node = Inr n
         \<and> n8n_type n = ''n8n-nodes-base.manualTrigger''
         \<and> parameters n = []))
   \<and> ((\<forall>n \<in> set nodes. nodeType (data n) \<in> {''trigger'', ''action''} \<longrightarrow> label (data n) \<noteq> None) \<longrightarrow>
      (\<exists>w. convert unicode today rnd nodes edges = Inr w
         \<and> length (wf_nodes w) = length nodes
         \<and> (\<forall>i < length nodes. convertNode unicode (rnd i) (nodes ! i) = Inr (wf_nodes w ! i))))\<close>
proof (intro conjI impI)
  assume "nodeType (data node) \<notin> {''trigger'', ''action'', ''condition'', ''validation'', ''notification''}"
  then show \<open>\<exists>n. convertNode unicode r node = Inr n
         \<and> n8n_type n = ''n8n-nodes-base.function''
         \<and> parameters n
             = [(''functionCode'',
                 JString (''// '' @ template_string (label (data node)) @ ''\<newline>return items;''))]\<close>
    by (simp add: convertNode_def getN8nNodeType_def getNodeParameters_def mapping_defs)
next
  assume a: \<open>nodeType (data node) = ''action'' \<and> label (data node) = Some l
      \<and> (\<forall>k \<in> {''llm'', ''ai'', ''gpt'', ''email'', ''database'', ''db'', ''http'', ''api''}.
            \<not> sublist k (toLowerCase unicode l))\<close>
  then have l: "label_toLowerCase unicode node = Inr (toLowerCase unicode l)"
    by (simp add: label_toLowerCase_Some)
  show \<open>\<exists>n. convertNode unicode r node = Inr n
         \<and> n8n_type n = ''n8n-nodes-base.code''
         \<and> parameters n
             = [(''functionCode'', JString (''// '' @ toLowerCase unicode l @ ''\<newline>// ''
                  @ (case description (data node) of None \<Rightarrow> [] | Some d \<Rightarrow> d)
                  @ ''\<newline>return items.map(item => {\<newline>  // Process item here\<newline>  return item.json;\<newline>});''))]\<close>
    using a
    by (simp add: convertNode_def getN8nNodeType_def getNodeParameters_def getActionParameters_def
        l or_else_def str_includes_sublist mapping_defs Let_def split: option.splits)
next
  assume \<open>nodeType (data node) = ''trigger'' \<and> label (data node) = Some l
      \<and> \<not> sublist ''webhook'' (toLowerCase unicode l)
      \<and> \<not> sublist ''schedule'' (toLowerCase unicode l)\<close>
  then show \<open>\<exists>n. convertNode unicode r node = Inr n
         \<and> n8n_type n = ''n8n-nodes-base.manualTrigger''
         \<and> parameters n = []\<close>
    using convertNode_trigger[of node l unicode r] by simp
next
  assume "\<forall>n \<in> set nodes. nodeType (data n) \<in> {''trigger'', ''action''} \<longrightarrow> label (data n) \<noteq> None"
  then show "\<exists>w. convert unicode today rnd nodes edges = Inr w
         \<and> length (wf_nodes w) = length nodes
         \<and> (\<forall>i < length nodes. convertNode unicode (rnd i) (nodes ! i) = Inr (wf_nodes w ! i))"
    using convert_returns[of nodes unicode today rnd edges] by auto
qed

theorem translation_fallback_witness:
  \<open>(\<exists>n. convertNode unicode_unused ''r'' ex_scan = Inr n
        \<and> n8n_type n = ''n8n-nodes-base.function''
        \<and> parameters n = [(''functionCode'', JString ''// Scan\<newline>return items;'')])
   \<and> (\<exists>n. convertNode unicode_unused ''r'' ex_transform = Inr n \<and> n8n_type n = ''n8n-nodes-base.code'')
   \<and> (\<exists>n. convertNode unicode_unused ''r'' ex_start = Inr n
          \<and> n8n_type n = ''n8n-nodes-base.manualTrigger'' \<and> parameters n = [])
   \<and> (\<exists>w. convert unicode_unused ''2025-01-01'' (\<lambda>i. ''r'') [ex_scan, ex_transform] [] = Inr w
          \<and> length (wf_nodes w) = 2)\<close>
proof -
  have k: "nodeType (data ex_scan) \<notin> {''trigger'', ''action'', ''condition'', ''validation'', ''notification''}"
    by (simp add: ex_defs)
  have l: "template_string (label (data ex_scan)) = ''Scan''" by (simp add: ex_defs template_string_def)
  have a: "nodeType (data ex_transform) = ''action'' \<and> label (data ex_transform) = Some ''Transform Order''"
    by (simp add: ex_transform_def mk_node_def)
  have n: "\<forall>k \<in> {''llm'', ''ai'', ''gpt'', ''email'', ''database'', ''db'', ''http'', ''api''}.
            \<not> sublist k (toLowerCase unicode_unused ''Transform Order'')"
    unfolding str_includes_sublist[symmetric] ex_lower by code_simp
  have t: "nodeType (data ex_start) = ''trigger'' \<and> label (data ex_start) = Some ''Start''"
    by (simp add: ex_defs)
  have m: "\<not> sublist ''webhook'' (toLowerCase unicode_unused ''Start'')"
    "\<not> sublist ''schedule'' (toLowerCase unicode_unused ''Start'')"
    unfolding str_includes_sublist[symmetric] ex_lower by code_simp+
  have p: "\<forall>n \<in> set [ex_scan, ex_transform]. nodeType (data n) \<in> {''trigger'', ''action''} \<longrightarrow> label (data n) \<noteq> None"
    by (simp add: ex_defs ex_transform_def)
  have 1: \<open>\<exists>n. convertNode unicode_unused ''r'' ex_scan = Inr n
        \<and> n8n_type n = ''n8n-nodes-base.function''
        \<and> parameters n = [(''functionCode'', JString ''// Scan\<newline>return items;'')]\<close>
    using translation_fallback[of ex_scan unicode_unused "''r''" "''Scan''" "[]",
        THEN conjunct1, THEN mp, OF k] l by simp
  have a': "nodeType (data ex_transform) = ''action'' \<and> label (data ex_transform) = Some ''Transform Order''
      \<and> (\<forall>k \<in> {''llm'', ''ai'', ''gpt'', ''email'', ''database'', ''db'', ''http'', ''api''}.
            \<not> sublist k (toLowerCase unicode_unused ''Transform Order''))"
    using a n by (intro conjI) (simp_all only: simp_thms)
  have 2: "\<exists>n. convertNode unicode_unused ''r'' ex_transform = Inr n \<and> n8n_type n = ''n8n-nodes-base.code''"
    using translation_fallback[of ex_transform unicode_unused "''r''" "''Transform Order''" "[]",
        THEN conjunct2, THEN conjunct1, THEN mp, OF a']
    by (elim exE conjE, intro exI conjI)
  have t': "nodeType (data ex_start) = ''trigger'' \<and> label (data ex_start) = Some ''Start''
      \<and> \<not> sublist ''webhook'' (toLowerCase unicode_unused ''Start'')
      \<and> \<not> sublist ''schedule'' (toLowerCase unicode_unused ''Start'')"
    using t m by (intro conjI) (simp_all only: simp_thms)
  have 3: "\<exists>n. convertNode unicode_unused ''r'' ex_start = Inr n
          \<and> n8n_type n = ''n8n-nodes-base.manualTrigger'' \<and> parameters n = []"
    using translation_fallback[of ex_start unicode_unused "''r''" "''Start''" "[]",
        THEN conjunct2, THEN conjunct2, THEN conjunct1, THEN mp, OF t'] .
  have 4: "\<exists>w. convert unicode_unused ''2025-01-01'' (\<lambda>i. ''r'') [ex_scan, ex_transform] [] = Inr w
          \<and> length (wf_nodes w) = 2"
    using translation_fallback[of ex_scan unicode_unused "''r''" "''Scan''" "[ex_scan, ex_transform]"
        "''2025-01-01''" "\<lambda>i. ''r''" "[]", THEN conjunct2, THEN conjunct2, THEN conjunct2, THEN mp, OF p]
    by auto
  show ?thesis using 1 2 3 4 by (intro conjI)
qed

text \<open>
  The translation of a two-node graph in full: a trigger whose label matches no keyword
  becomes a manual trigger with an empty parameter block, not the scriptable template,
  and the returned document has the six fields of \<open>N8nWorkflow\<close>, none of which lists
  warnings. And the translation of a graph whose trigger came without a label: the
  converter raises a \<open>TypeError\<close> and returns no document.
\<close>

theorem translation_warnings_counterexample:
  \<open>convert unicode_unused ''2025-01-01'' (\<lambda>i. ''r'') [ex_start, ex_scan] [] =
     Inr \<lparr> wf_name = ''Start - 2025-01-01'',
           wf_nodes =
             [\<lparr> n8n_id = ''n4'', n8n_name = Some ''Start'', n8n_type = ''n8n-nodes-base.manualTrigger'',
                typeVersion = 1, n8n_position = (0, 0), parameters = [], webhookId = None \<rparr>,
              \<lparr> n8n_id = ''n3'', n8n_name = Some ''Scan'', n8n_type = ''n8n-nodes-base.function'',
                typeVersion = 1, n8n_position = (0, 0),
                parameters = [(''functionCode'', JString ''// Scan\<newline>return items;'')],
                webhookId = None \<rparr>],
           wf_connections =
             \<lparr> own = [''Start'' \<mapsto> \<lparr> main = [ [] ] \<rparr>, ''Scan'' \<mapsto> \<lparr> main = [ [] ] \<rparr>],
               prototype = None \<rparr>,
           wf_active = False,
           wf_settings = [(''executionOrder'', JString ''v1'')],
           wf_staticData = [] \<rparr>
   \<and> nodeType (data ex_unlabelled) = ''trigger''
   \<and> label (data ex_unlabelled) = None
   \<and> convert unicode_unused ''2025-01-01'' (\<lambda>i. ''r'') [ex_unlabelled] [] = Inl TypeError\<close>
proof -
  have b: "\<not> str_includes ''start'' ''webhook''" by code_simp
  have c: "\<not> str_includes ''start'' ''schedule''" by code_simp
  have u: "nodeType (data ex_unlabelled) = ''trigger''" "label (data ex_unlabelled) = None"
    by (simp_all add: ex_defs)
  have "convert unicode_unused ''2025-01-01'' (\<lambda>i. ''r'') [ex_unlabelled] [] = Inl TypeError"
    by (simp add: convert_def convertNodes_def convertNode_trigger_unlabelled[OF u])
  then show ?thesis
    using b c u
    by (simp add: convert_def generateWorkflowName_def convertNodes_def convertNode_def
        getN8nNodeType_def getNodeParameters_def getTriggerParameters_def label_toLowerCase_def
        ex_lower template_string_def mapping_defs
        convertConnections_def init_connections_def assign_property_def empty_connection_def
        ex_start_def ex_scan_def mk_node_def)
qed

subsection \<open>Deployment metadata\<close>

lemma dedup_distinct: "distinct seen \<Longrightarrow> distinct (dedup seen xs)"
  by (induction seen xs rule: dedup.induct) auto

lemma dedup_set: "set (dedup seen xs) = set seen \<union> set xs"
  by (induction seen xs rule: dedup.induct) auto

lemma node_credentials_labelled:
  assumes "label (data n) = Some l"
  shows "\<exists>cs. node_credentials unicode n = Inr cs \<and> set cs = label_credentials unicode l"
  by (auto simp: node_credentials_def label_toLowerCase_Some[OF assms] label_credentials_def
      str_includes_sublist)

lemma collect_credentials_labelled:
  assumes "\<forall>n \<in> set nodes. label (data n) \<noteq> None"
  shows "\<exists>cs. collect_credentials unicode acc nodes = Inr cs
           \<and> set cs = set acc \<union> (\<Union>n \<in> set nodes. label_credentials unicode (template_string (label (data n))))"
  using assms
proof (induction nodes arbitrary: acc)
  case Nil
  show ?case by simp
next
  case (Cons n nodes)
  then obtain l where l: "label (data n) = Some l" by auto
  obtain cs where cs: "node_credentials unicode n = Inr cs" "set cs = label_credentials unicode l"
    using node_credentials_labelled[OF l] by blast
  obtain ds where ds: "collect_credentials unicode (acc @ cs) nodes = Inr ds"
    "set ds = set (acc @ cs)
       \<union> (\<Union>n \<in> set nodes. label_credentials unicode (template_string (label (data n))))"
    using Cons.IH[of "acc @ cs"] Cons.prems by auto
  show ?case
    using cs ds l by (auto simp: template_string_def)
qed

lemma filter_webhook_nodes_labelled:
  assumes "\<forall>n \<in> set nodes. nodeType (data n) = ''trigger'' \<longrightarrow> label (data n) \<noteq> None"
  shows "filter_webhook_nodes unicode nodes = Inr (filter (is_webhook_trigger unicode) nodes)"
  using assms
proof (induction nodes)
  case Nil
  show ?case by simp
next
  case (Cons n nodes)
  have "is_webhook_node unicode n = Inr (is_webhook_trigger unicode n)"
    using Cons.prems
    by (auto simp: is_webhook_node_def is_webhook_trigger_def label_toLowerCase_def
        str_includes_sublist split: option.splits)
  then show ?case using Cons by simp
qed

text \<open>
  C8, as the code has it, for a graph whose nodes have labels. The credential
  requirements are collected from all labels, in lower case, and returned without
  duplicates; the e-mail credentials are listed exactly when some label contains
  "email". One example endpoint is produced for each webhook trigger, in order, and
  for no other node.
\<close>

theorem deployment_metadata:
  "((\<forall>n \<in> set nodes. label (data n) \<noteq> None) \<longrightarrow>
      (\<exists>cs. getRequiredCredentials unicode nodes = Inr cs
         \<and> distinct cs
         \<and> set cs = (\<Union>n \<in> set nodes. label_credentials unicode (template_string (label (data n))))
         \<and> (''SMTP/Email Credentials'' \<in> set cs
              \<longleftrightarrow> (\<exists>n \<in> set nodes.
                     sublist ''email'' (toLowerCase unicode (template_string (label (data n))))))))
   \<and> ((\<forall>n \<in> set nodes. nodeType (data n) = ''trigger'' \<longrightarrow> label (data n) \<noteq> None) \<longrightarrow>
      (\<exists>es. generateTestEndpoints unicode now nodes = Inr es
         \<and> map te_url es
             = map (\<lambda>n. ''http://localhost:5678/webhook/nodex-'' @ node_id n)
                 (filter (is_webhook_trigger unicode) nodes)))"
proof (intro conjI impI)
  assume a: "\<forall>n \<in> set nodes. label (data n) \<noteq> None"
  obtain cs where cs: "collect_credentials unicode [] nodes = Inr cs"
    "set cs = (\<Union>n \<in> set nodes. label_credentials unicode (template_string (label (data n))))"
    using collect_credentials_labelled[OF a, of unicode "[]"] by auto
  have g: "getRequiredCredentials unicode nodes = Inr (dedup [] cs)"
    by (simp add: getRequiredCredentials_def cs(1))
  have s: "set (dedup [] cs)
             = (\<Union>n \<in> set nodes. label_credentials unicode (template_string (label (data n))))"
    by (simp add: dedup_set cs(2))
  have e: "''SMTP/Email Credentials'' \<in> set (dedup [] cs)
              \<longleftrightarrow> (\<exists>n \<in> set nodes.
                     sublist ''email'' (toLowerCase unicode (template_string (label (data n)))))"
    unfolding s by (auto simp: label_credentials_def split: if_splits)
  show "\<exists>cs. getRequiredCredentials unicode nodes = Inr cs
         \<and> distinct cs
         \<and> set cs = (\<Union>n \<in> set nodes. label_credentials unicode (template_string (label (data n))))
         \<and> (''SMTP/Email Credentials'' \<in> set cs
              \<longleftrightarrow> (\<exists>n \<in> set nodes.
                     sublist ''email'' (toLowerCase unicode (template_string (label (data n))))))"
    using g s e dedup_distinct[of "[]" cs] by (intro exI[of _ "dedup [] cs"]) simp
next
  assume "\<forall>n \<in> set nodes. nodeType (data n) = ''trigger'' \<longrightarrow> label (data n) \<noteq> None"
  then have "generateTestEndpoints unicode now nodes
               = Inr (map (\<lambda>node. \<lparr> te_method = ''POST'',
                             te_url = ''http://localhost:5678/webhook/nodex-'' @ node_id node,
                             te_body = [(''test'', JString ''data''), (''timestamp'', JString now)],
                             te_description = ''Test endpoint for '' @ template_string (label (data node)) \<rparr>)
                        (filter (is_webhook_trigger unicode) nodes))"
    by (simp add: generateTestEndpoints_def filter_webhook_nodes_labelled)
  then show "\<exists>es. generateTestEndpoints unicode now nodes = Inr es
         \<and> map te_url es
             = map (\<lambda>n. ''http://localhost:5678/webhook/nodex-'' @ node_id n)
                 (filter (is_webhook_trigger unicode) nodes)"
    by (simp add: comp_def)
qed

theorem deployment_metadata_witness:
  "list_all (\<lambda>n. label (data n) \<noteq> None) [ex_hook, ex_email, ex_email]
   \<and> (\<exists>cs. getRequiredCredentials unicode_unused [ex_hook, ex_email, ex_email] = Inr cs
          \<and> distinct cs \<and> ''SMTP/Email Credentials'' \<in> set cs)
   \<and> (\<exists>es. generateTestEndpoints unicode_unused ''2025-01-01T09:00:00.000Z'' [ex_hook, ex_email, ex_email]
             = Inr es
          \<and> map te_url es = [''http://localhost:5678/webhook/nodex-n1''])"
proof -
  let ?ns = "[ex_hook, ex_email, ex_email]"
  have a: "\<forall>n \<in> set ?ns. label (data n) \<noteq> None" by (simp add: ex_defs)
  have b: "\<forall>n \<in> set ?ns. nodeType (data n) = ''trigger'' \<longrightarrow> label (data n) \<noteq> None"
    by (simp add: ex_defs)
  have "sublist ''email'' (toLowerCase unicode_unused ''Send Email'')"
    unfolding str_includes_sublist[symmetric] ex_lower by code_simp
  then have e: "\<exists>n \<in> set ?ns. sublist ''email'' (toLowerCase unicode_unused (template_string (label (data n))))"
    by (simp add: ex_defs template_string_def)
  have h: "is_webhook_trigger unicode_unused ex_hook"
    unfolding is_webhook_trigger_def str_includes_sublist[symmetric]
    by (simp add: ex_defs ex_lower)
  have m: "\<not> is_webhook_trigger unicode_unused ex_email"
    by (simp add: is_webhook_trigger_def ex_defs)
  have f: "filter (is_webhook_trigger unicode_unused) ?ns = [ex_hook]" using h m by simp
  have i: "node_id ex_hook = ''n1''" by (simp add: ex_defs)
  have 1: "\<exists>cs. getRequiredCredentials unicode_unused ?ns = Inr cs
          \<and> distinct cs \<and> ''SMTP/Email Credentials'' \<in> set cs"
    using deployment_metadata[of ?ns unicode_unused, THEN conjunct1, THEN mp, OF a] e by blast
  have 2: "\<exists>es. generateTestEndpoints unicode_unused ''2025-01-01T09:00:00.000Z'' ?ns = Inr es
          \<and> map te_url es = [''http://localhost:5678/webhook/nodex-n1'']"
    using deployment_metadata[of ?ns unicode_unused "''2025-01-01T09:00:00.000Z''",
        THEN conjunct2, THEN mp, OF b] f i
    by simp
  show ?thesis using a 1 2 by (simp add: list_all_iff)
qed

text \<open>
  A trigger node with a schedule label gets no example endpoint. And for a graph with a
  node that came without a label no list of credentials is produced: the scan raises a
  \<open>TypeError\<close>.
\<close>

theorem test_endpoints_counterexample:
  "nodeType (data ex_sched) = ''trigger''
   \<and> label (data ex_sched) = Some ''Daily Schedule''
   \<and> generateTestEndpoints unicode_unused ''2025-01-01T09:00:00.000Z'' [ex_sched] = Inr []
   \<and> label (data ex_unlabelled) = None
   \<and> getRequiredCredentials unicode_unused [ex_sched, ex_unlabelled] = Inl TypeError"
proof -
  have w: "\<not> str_includes ''daily schedule'' ''webhook''" by code_simp
  have t: "nodeType (data ex_sched) = ''trigger''" "label (data ex_sched) = Some ''Daily Schedule''"
    by (simp_all add: ex_defs)
  have u: "label (data ex_unlabelled) = None" by (simp add: ex_defs)
  have "\<exists>cs. node_credentials unicode_unused ex_sched = Inr cs"
    by (simp add: node_credentials_def label_toLowerCase_Some[OF t(2)])
  then have c: "getRequiredCredentials unicode_unused [ex_sched, ex_unlabelled] = Inl TypeError"
    by (auto simp: getRequiredCredentials_def node_credentials_def label_toLowerCase_None[OF u])
  have "is_webhook_node unicode_unused ex_sched = Inr False"
    by (simp add: is_webhook_node_def t(1) label_toLowerCase_Some[OF t(2)] ex_lower w)
  then show ?thesis using t u c by (simp add: generateTestEndpoints_def)
qed

section \<open>Properties of the edit layer\<close>

declare show_nat.simps [simp del]

lemma show_nat_1: "show_nat (Suc 0) = ''1''" by code_simp

text \<open>
  C3, as the code has it. A deletion that targets a locked node is rejected: the
  builder's \<open>deleteSelectedNodes\<close> leaves nodes, edges and selection as they are and
  calls \<open>addChatMessage\<close> with a fixed text that counts the locked nodes of the
  selection; the canvas's \<open>handleDelete\<close> leaves nodes and edges as they are and
  reports nothing.
\<close>

theorem locked_deletion_rejected:
  "((\<exists>n \<in> set (st_nodes st). node_id n \<in> set (st_selectedNodes st) \<and> locked (data n)) \<longrightarrow>
      deleteSelectedNodes st =
        (st, [(''system'', warning_sign @ '' Cannot delete ''
                 @ show_nat (length (filter (\<lambda>n. locked (data n))
                      (filter (\<lambda>n. node_id n \<in> set (st_selectedNodes st)) (st_nodes st))))
                 @ '' compliance node(s) - they are locked'')]))
   \<and> (cm_node (cv_contextMenu cst) = Some node \<and> locked (data node) \<longrightarrow>
        cv_nodes (fst (handleDelete cb cst)) = cv_nodes cst
        \<and> cv_edges (fst (handleDelete cb cst)) = cv_edges cst
        \<and> snd (handleDelete cb cst) = [])"
proof (intro conjI impI)
  assume "\<exists>n \<in> set (st_nodes st). node_id n \<in> set (st_selectedNodes st) \<and> locked (data n)"
  then obtain n where n: "n \<in> set (st_nodes st)" "node_id n \<in> set (st_selectedNodes st)" "locked (data n)"
    by blast
  then have "n \<in> set (filter (\<lambda>n. locked (data n))
                 (filter (\<lambda>n. node_id n \<in> set (st_selectedNodes st)) (st_nodes st)))"
    by simp
  then have "length (filter (\<lambda>n. locked (data n))
                 (filter (\<lambda>n. node_id n \<in> set (st_selectedNodes st)) (st_nodes st))) > 0"
    by (metis length_pos_if_in_set)
  moreover have "st_selectedNodes st \<noteq> []" using n(2) by auto
  ultimately show "deleteSelectedNodes st =
        (st, [(''system'', warning_sign @ '' Cannot delete ''
                 @ show_nat (length (filter (\<lambda>n. locked (data n))
                      (filter (\<lambda>n. node_id n \<in> set (st_selectedNodes st)) (st_nodes st))))
                 @ '' compliance node(s) - they are locked'')])"
    by (simp add: deleteSelectedNodes_def Let_def)
next
  assume "cm_node (cv_contextMenu cst) = Some node \<and> locked (data node)"
  then show "cv_nodes (fst (handleDelete cb cst)) = cv_nodes cst"
    "cv_edges (fst (handleDelete cb cst)) = cv_edges cst"
    "snd (handleDelete cb cst) = []"
    by (simp_all add: handleDelete_def)
qed

theorem locked_deletion_rejected_witness:
  "ex_fraud \<in> set (st_nodes ex_builder) \<and> locked (data ex_fraud)
   \<and> fst (deleteSelectedNodes ex_builder) = ex_builder
   \<and> cm_node (cv_contextMenu ex_canvas) = Some ex_fraud
   \<and> cv_nodes (fst (handleDelete True ex_canvas)) = cv_nodes ex_canvas"
proof -
  have a: "ex_fraud \<in> set (st_nodes ex_builder)" "node_id ex_fraud \<in> set (st_selectedNodes ex_builder)"
    "locked (data ex_fraud)"
    by (simp_all add: ex_builder_def ex_fraud_def mk_node_def)
  then have h: "\<exists>n \<in> set (st_nodes ex_builder). node_id n \<in> set (st_selectedNodes ex_builder) \<and> locked (data n)"
    by blast
  have c: "cm_node (cv_contextMenu ex_canvas) = Some ex_fraud" by (simp add: ex_canvas_def)
  show ?thesis
    using locked_deletion_rejected[of ex_builder ex_canvas ex_fraud True] h a c by simp
qed

text \<open>
  The text of the rejection is not the node's \<open>compliance_reason\<close>.
\<close>

theorem locked_deletion_message_counterexample:
  "compliance_reason (data ex_fraud) = Some ''Required for financial compliance''
   \<and> deleteSelectedNodes ex_builder =
       (ex_builder, [(''system'', warning_sign @ '' Cannot delete 1 compliance node(s) - they are locked'')])
   \<and> warning_sign @ '' Cannot delete 1 compliance node(s) - they are locked''
       \<noteq> ''Required for financial compliance''
   \<and> snd (handleDelete True ex_canvas) = []"
  by (simp add: deleteSelectedNodes_def ex_builder_def ex_canvas_def ex_fraud_def ex_payment_def
      ex_hook_def mk_node_def mk_edge_def handleDelete_def warning_sign_def show_nat_1)

text \<open>
  C10. When no selected node is locked, \<open>deleteSelectedNodes\<close> keeps exactly the nodes
  that are not selected and exactly the edges neither of whose ends is selected; so
  if every edge referenced existing nodes before, every remaining edge references
  remaining nodes.
\<close>

theorem deletion_removes_incident_edges:
  assumes "\<forall>n \<in> set (st_nodes st). node_id n \<in> set (st_selectedNodes st) \<longrightarrow> \<not> locked (data n)"
  shows "st_nodes (fst (deleteSelectedNodes st))
           = filter (\<lambda>n. node_id n \<notin> set (st_selectedNodes st)) (st_nodes st)
       \<and> st_edges (fst (deleteSelectedNodes st))
           = filter (\<lambda>e. source e \<notin> set (st_selectedNodes st) \<and> target e \<notin> set (st_selectedNodes st))
               (st_edges st)
       \<and> ((\<forall>e \<in> set (st_edges st). source e \<in> node_id ` set (st_nodes st)
                                    \<and> target e \<in> node_id ` set (st_nodes st)) \<longrightarrow>
           (\<forall>e \<in> set (st_edges (fst (deleteSelectedNodes st))).
               source e \<in> node_id ` set (st_nodes (fst (deleteSelectedNodes st)))
               \<and> target e \<in> node_id ` set (st_nodes (fst (deleteSelectedNodes st)))))"
proof -
  have nl: "filter (\<lambda>n. locked (data n))
              (filter (\<lambda>n. node_id n \<in> set (st_selectedNodes st)) (st_nodes st)) = []"
    using assms by (auto simp: filter_empty_conv)
  have n: "st_nodes (fst (deleteSelectedNodes st))
           = filter (\<lambda>n. node_id n \<notin> set (st_selectedNodes st)) (st_nodes st)"
    using nl by (cases "st_selectedNodes st = []") (simp_all add: deleteSelectedNodes_def Let_def)
  have e: "st_edges (fst (deleteSelectedNodes st))
           = filter (\<lambda>e. source e \<notin> set (st_selectedNodes st) \<and> target e \<notin> set (st_selectedNodes st))
               (st_edges st)"
    using nl by (cases "st_selectedNodes st = []") (simp_all add: deleteSelectedNodes_def Let_def)
  show ?thesis
    unfolding n e by auto
qed

theorem deletion_removes_incident_edges_witness:
  "st_nodes (fst (deleteSelectedNodes ex_builder2)) = [ex_hook, ex_fraud]
   \<and> st_edges (fst (deleteSelectedNodes ex_builder2)) = [mk_edge ''e1'' ''n1'' ''n8'']"
proof -
  have h: "\<forall>n \<in> set (st_nodes ex_builder2). node_id n \<in> set (st_selectedNodes ex_builder2) \<longrightarrow> \<not> locked (data n)"
    by (simp add: ex_builder2_def ex_builder_def ex_fraud_def ex_payment_def ex_hook_def mk_node_def)
  show ?thesis
    using deletion_removes_incident_edges[OF h]
    by (simp add: ex_builder2_def ex_builder_def ex_fraud_def ex_payment_def ex_hook_def mk_node_def mk_edge_def)
qed

section \<open>Properties of the layout solver\<close>

subsection \<open>Incremental placement\<close>

declare grid_cols.simps [simp del] grid_rows.simps [simp del]
  spiral_angles.simps [simp del] spiral_radii.simps [simp del]

lemma find_append_case:
  "find P (xs @ ys) = (case find P xs of Some x \<Rightarrow> Some x | None \<Rightarrow> find P ys)"
  by (induction xs) auto

lemma grid_cols_step:
  "col < 8 \<Longrightarrow>
   grid_cols fp a p row col =
     (if free_at fp a p (grid_point fp row col) then Some (grid_point fp row col)
      else grid_cols fp a p row (Suc col))"
  by (subst grid_cols.simps)
    (simp add: Let_def free_at_def grid_point_def gridSpacing_def startX_def startY_def)

lemma grid_cols_find:
  "col \<le> 8 \<Longrightarrow>
   grid_cols fp a p row col = find (free_at fp a p) (map (grid_point fp row) [col..<8])"
proof (induction "8 - col" arbitrary: col)
  case 0
  then have "col = 8" by simp
  then show ?case by (subst grid_cols.simps) simp
next
  case (Suc n)
  then have lt: "col < 8" by simp
  then have u: "[col..<8] = col # [Suc col..<8]" by (simp add: upt_conv_Cons)
  have "grid_cols fp a p row (Suc col) = find (free_at fp a p) (map (grid_point fp row) [Suc col..<8])"
    using Suc lt by (intro Suc(1)) simp_all
  then show ?case by (simp add: grid_cols_step[OF lt] u)
qed

lemma grid_rows_find:
  "row \<le> 10 \<Longrightarrow>
   grid_rows fp a p row
     = find (free_at fp a p) (concat (map (\<lambda>r. map (grid_point fp r) [0..<8]) [row..<10]))"
proof (induction fp a p row rule: grid_rows.induct)
  case (1 fp a p row)
  show ?case
  proof (cases "row < 10")
    case True
    then have u: "[row..<10] = row # [Suc row..<10]" by (simp add: upt_conv_Cons)
    show ?thesis
      using True 1
      by (subst grid_rows.simps)
        (simp add: u find_append_case grid_cols_find split: option.splits)
  next
    case False
    then show ?thesis using 1(2) by (subst grid_rows.simps) simp
  qed
qed

lemma spiral_angles_step:
  "k < 8 \<Longrightarrow>
   spiral_angles fp a p (xpos c) (ypos c) (50 * r) (45 * k) =
     (if free_at fp a p (spiral_point fp c r k) then Some (spiral_point fp c r k)
      else spiral_angles fp a p (xpos c) (ypos c) (50 * r) (45 * Suc k))"
proof -
  assume k: "k < 8"
  have e: "45 * k + 45 = 45 * Suc k" by simp
  show ?thesis
    using k by (subst spiral_angles.simps) (simp only: e, simp add: Let_def free_at_def spiral_point_def)
qed

lemma spiral_angles_find:
  "k \<le> 8 \<Longrightarrow>
   spiral_angles fp a p (xpos c) (ypos c) (50 * r) (45 * k)
     = find (free_at fp a p) (map (spiral_point fp c r) [k..<8])"
proof (induction "8 - k" arbitrary: k)
  case 0
  then have "k = 8" by simp
  then show ?case by (subst spiral_angles.simps) simp
next
  case (Suc n)
  then have lt: "k < 8" by simp
  then have u: "[k..<8] = k # [Suc k..<8]" by (simp add: upt_conv_Cons)
  have "spiral_angles fp a p (xpos c) (ypos c) (50 * r) (45 * Suc k)
          = find (free_at fp a p) (map (spiral_point fp c r) [Suc k..<8])"
    using Suc lt by (intro Suc(1)) simp_all
  then show ?case by (simp only: spiral_angles_step[OF lt] u) simp
qed

lemma spiral_radii_step:
  "r < 9 \<Longrightarrow>
   spiral_radii fp a p cx cy (50 * r) =
     (case spiral_angles fp a p cx cy (50 * r) (45 * 0) of
        Some c \<Rightarrow> Some c
      | None \<Rightarrow> spiral_radii fp a p cx cy (50 * Suc r))"
proof -
  assume r: "r < 9"
  have e: "50 * r + spiralRadius = 50 * Suc r" by (simp add: spiralRadius_def)
  show ?thesis
    using r by (subst spiral_radii.simps) (simp only: e, simp)
qed

lemma spiral_radii_find:
  "r \<le> 9 \<Longrightarrow>
   spiral_radii fp a p (xpos c) (ypos c) (50 * r)
     = find (free_at fp a p) (concat (map (\<lambda>r. map (spiral_point fp c r) [0..<8]) [r..<9]))"
proof (induction "9 - r" arbitrary: r)
  case 0
  then have "r = 9" by simp
  then show ?case by (subst spiral_radii.simps) simp
next
  case (Suc n)
  then have lt: "r < 9" by simp
  then have u: "[r..<9] = r # [Suc r..<9]" by (simp add: upt_conv_Cons)
  have "spiral_radii fp a p (xpos c) (ypos c) (50 * Suc r)
          = find (free_at fp a p) (concat (map (\<lambda>r. map (spiral_point fp c r) [0..<8]) [Suc r..<9]))"
    using Suc lt by (intro Suc(1)) simp_all
  then show ?case
    by (simp only: spiral_radii_step[OF lt] spiral_angles_find[of 0] u)
      (simp add: find_append_case split: option.splits)
qed

lemma search_order_eq:
  "search_order fp px py =
     preferred_point px py
       # concat (map (\<lambda>r. map (grid_point fp r) [0..<8]) [0..<10])
       @ concat (map (\<lambda>r. map (spiral_point fp (spiral_centre px py) r) [0..<8]) [1..<9])"
  by (simp only: search_order_def grid_candidates_def spiral_candidates_def)

lemma findFreePosition_find:
  "findFreePosition fp a p r1 r2 px py =
     (case find (free_at fp a p) (search_order fp px py) of
        Some c \<Rightarrow> c
      | None \<Rightarrow> random_offset fp r1 r2 px py)"
proof -
  have g: "grid_rows fp a p 0
             = find (free_at fp a p) (concat (map (\<lambda>r. map (grid_point fp r) [0..<8]) [0..<10]))"
    by (rule grid_rows_find) simp
  have s: "spiral_radii fp a p (xpos c) (ypos c) spiralRadius
           = find (free_at fp a p) (concat (map (\<lambda>r. map (spiral_point fp c r) [0..<8]) [1..<9]))" for c
    using spiral_radii_find[of 1 fp a p c] by (simp add: spiralRadius_def)
  have "findFreePosition fp a p r1 r2 px py =
     (if free_at fp a p (preferred_point px py) then preferred_point px py
      else (case grid_rows fp a p 0 of
              Some c \<Rightarrow> c
            | None \<Rightarrow>
                (case spiral_radii fp a p (xpos (spiral_centre px py)) (ypos (spiral_centre px py))
                        spiralRadius of
                   Some c \<Rightarrow> c
                 | None \<Rightarrow> random_offset fp r1 r2 px py)))"
    by (cases px; cases py)
      (auto simp: findFreePosition_def Let_def nullish_def preferred_point_def spiral_centre_def
        random_offset_def free_at_def split: option.splits)
  then show ?thesis
    unfolding search_order_eq
    by (simp add: g s find_append_case split: option.splits)
qed

lemma overlaps_iff_spaced: "overlaps fp (xpos p) (ypos p) q \<longleftrightarrow> \<not> spaced fp p q"
  by (auto simp: overlaps_def spaced_def Let_def)

lemma isPositionFree_iff_spaced:
  "isPositionFree fp a p (xpos c) (ypos c) \<longleftrightarrow> (\<forall>q \<in> set (a @ p). spaced fp c q)"
  by (simp add: isPositionFree_def Let_def list_ex_iff overlaps_iff_spaced)

lemma spaced_exact: "spaced exact_arith p q \<longleftrightarrow> gap_ok p q"
  by (simp add: spaced_def gap_ok_def exact_arith_def)

text \<open>
  Without rounding, the acceptance test is one of rectangles: the candidate overlaps a
  node exactly when its footprint expanded by \<open>minSpacing\<close>, the border of the expansion
  left out, meets the footprint of the node.
\<close>

lemma overlaps_iff_rects:
  "overlaps exact_arith tx ty q
     \<longleftrightarrow> expanded_interior \<lparr> xpos = tx, ypos = ty \<rparr> \<inter> footprint q \<noteq> {}"
proof
  assume o: "overlaps exact_arith tx ty q"
  let ?a = "(max (tx - 10) (xpos q) + min (tx + 160) (xpos q + 150)) / 2"
  let ?b = "(max (ty - 10) (ypos q) + min (ty + 90) (ypos q + 80)) / 2"
  have "(?a, ?b) \<in> expanded_interior \<lparr> xpos = tx, ypos = ty \<rparr> \<inter> footprint q"
    using o
    by (auto simp: overlaps_def exact_arith_def expanded_interior_def footprint_def Let_def
        nodeWidth_def nodeHeight_def minSpacing_def)
  then show "expanded_interior \<lparr> xpos = tx, ypos = ty \<rparr> \<inter> footprint q \<noteq> {}" by blast
next
  assume "expanded_interior \<lparr> xpos = tx, ypos = ty \<rparr> \<inter> footprint q \<noteq> {}"
  then obtain a b where "(a, b) \<in> expanded_interior \<lparr> xpos = tx, ypos = ty \<rparr>" "(a, b) \<in> footprint q"
    by auto
  then show "overlaps exact_arith tx ty q"
    by (auto simp: overlaps_def exact_arith_def expanded_interior_def footprint_def Let_def
        nodeWidth_def nodeHeight_def minSpacing_def)
qed

text \<open>
  C5, as the code has it. \<open>findFreePosition\<close> returns the first candidate of the search
  order that passes the acceptance test: the coordinate the caller prefers, then the
  grid from left to right and top to bottom with steps footprint + minSpacing + 20,
  then the spiral around the preferred coordinate with radius 50 to 400 and angles in
  steps of 45 degrees; when no candidate passes, it returns the randomized offset
  unchecked. In particular a preferred coordinate that passes the test is returned as
  it is. A candidate passes if and only if, against every placed and every pending
  node, the edge-to-edge gap of the two footprints is at least \<open>minSpacing\<close> in the
  horizontal or in the vertical axis; without rounding, if and only if its footprint
  expanded by \<open>minSpacing\<close>, the border left out, meets the footprint of no placed or
  pending node.
\<close>

theorem findFreePosition_search_order:
  "findFreePosition fp allPositions pendingPositions random1 random2 preferredX preferredY =
     (case find (\<lambda>c. isPositionFree fp allPositions pendingPositions (xpos c) (ypos c))
                (search_order fp preferredX preferredY) of
        Some c \<Rightarrow> c
      | None \<Rightarrow> random_offset fp random1 random2 preferredX preferredY)
   \<and> (isPositionFree fp allPositions pendingPositions x y \<longrightarrow>
        findFreePosition fp allPositions pendingPositions random1 random2 (Some x) (Some y)
          = \<lparr> xpos = x, ypos = y \<rparr>)
   \<and> (isPositionFree fp allPositions pendingPositions testX testY \<longleftrightarrow>
        (\<forall>q \<in> set (allPositions @ pendingPositions). spaced fp \<lparr> xpos = testX, ypos = testY \<rparr> q))
   \<and> (isPositionFree exact_arith allPositions pendingPositions testX testY \<longleftrightarrow>
        (\<forall>q \<in> set (allPositions @ pendingPositions).
           expanded_interior \<lparr> xpos = testX, ypos = testY \<rparr> \<inter> footprint q = {}))"
proof (intro conjI impI)
  have "free_at fp allPositions pendingPositions
          = (\<lambda>c. isPositionFree fp allPositions pendingPositions (xpos c) (ypos c))"
    by (rule ext) (simp add: free_at_def)
  then show "findFreePosition fp allPositions pendingPositions random1 random2 preferredX preferredY =
     (case find (\<lambda>c. isPositionFree fp allPositions pendingPositions (xpos c) (ypos c))
                (search_order fp preferredX preferredY) of
        Some c \<Rightarrow> c
      | None \<Rightarrow> random_offset fp random1 random2 preferredX preferredY)"
    using findFreePosition_find[of fp allPositions pendingPositions random1 random2 preferredX preferredY]
    by simp
  show "isPositionFree fp allPositions pendingPositions testX testY \<longleftrightarrow>
        (\<forall>q \<in> set (allPositions @ pendingPositions). spaced fp \<lparr> xpos = testX, ypos = testY \<rparr> q)"
    using isPositionFree_iff_spaced[of fp allPositions pendingPositions "\<lparr> xpos = testX, ypos = testY \<rparr>"]
    by simp
  show "isPositionFree exact_arith allPositions pendingPositions testX testY \<longleftrightarrow>
        (\<forall>q \<in> set (allPositions @ pendingPositions).
           expanded_interior \<lparr> xpos = testX, ypos = testY \<rparr> \<inter> footprint q = {})"
    by (simp add: isPositionFree_def Let_def list_ex_iff overlaps_iff_rects)
next
  assume "isPositionFree fp allPositions pendingPositions x y"
  then show "findFreePosition fp allPositions pendingPositions random1 random2 (Some x) (Some y)
          = \<lparr> xpos = x, ypos = y \<rparr>"
    by (simp add: findFreePosition_find search_order_def preferred_point_def free_at_def)
qed

lemma upt8: "[0..<8] = [0,1,2,3,4,5,6,7]" by (simp add: upt_rec)
lemma upt10: "[0..<10] = [0,1,2,3,4,5,6,7,8,9]" by (simp add: upt_rec)

lemma find_grid_first:
  "find (free_at exact_arith [\<lparr> xpos = 100, ypos = 100 \<rparr>] []) (search_order exact_arith None None)
     = Some \<lparr> xpos = 410, ypos = 50 \<rparr>"
proof -
  let ?P = "free_at exact_arith [\<lparr> xpos = 100, ypos = 100 \<rparr>] []"
  have pref: "\<not> ?P \<lparr> xpos = 100, ypos = 100 \<rparr>"
    by (simp add: free_at_def isPositionFree_def overlaps_def Let_def exact_arith_def
        nodeWidth_def nodeHeight_def minSpacing_def)
  have row0: "find ?P (map (grid_point exact_arith 0) [0..<8]) = Some \<lparr> xpos = 410, ypos = 50 \<rparr>"
    by (simp add: upt8 grid_point_def free_at_def isPositionFree_def overlaps_def Let_def
        exact_arith_def nodeWidth_def nodeHeight_def minSpacing_def)
  have u: "[0..<10] = 0 # [1..<10]" by (simp add: upt_rec)
  show ?thesis
    unfolding search_order_eq u using pref row0
    by (simp add: preferred_point_def find_append_case del: upt_Suc)
qed

theorem findFreePosition_search_order_witness:
  "findFreePosition exact_arith [\<lparr> xpos = 100, ypos = 100 \<rparr>] [] (1/2) (1/2) None None
     = \<lparr> xpos = 410, ypos = 50 \<rparr>
   \<and> isPositionFree exact_arith [\<lparr> xpos = 100, ypos = 100 \<rparr>] [] 300 120
   \<and> findFreePosition exact_arith [\<lparr> xpos = 100, ypos = 100 \<rparr>] [] (1/2) (1/2) (Some 300) (Some 120)
       = \<lparr> xpos = 300, ypos = 120 \<rparr>
   \<and> \<not> isPositionFree exact_arith [\<lparr> xpos = 100, ypos = 100 \<rparr>] [] 230 50
   \<and> expanded_interior \<lparr> xpos = 300, ypos = 120 \<rparr> \<inter> footprint \<lparr> xpos = 100, ypos = 100 \<rparr> = {}"
proof -
  have f: "find (\<lambda>c. isPositionFree exact_arith [\<lparr> xpos = 100, ypos = 100 \<rparr>] [] (xpos c) (ypos c))
             (search_order exact_arith None None)
            = Some \<lparr> xpos = 410, ypos = 50 \<rparr>"
    using find_grid_first by (simp add: free_at_def[abs_def])
  have p: "isPositionFree exact_arith [\<lparr> xpos = 100, ypos = 100 \<rparr>] [] 300 120"
    by (simp add: isPositionFree_def overlaps_def Let_def exact_arith_def
        nodeWidth_def nodeHeight_def minSpacing_def)
  have n: "\<not> spaced exact_arith \<lparr> xpos = 230, ypos = 50 \<rparr> \<lparr> xpos = 100, ypos = 100 \<rparr>"
    by (simp add: spaced_def exact_arith_def nodeWidth_def nodeHeight_def minSpacing_def)
  have 1: "findFreePosition exact_arith [\<lparr> xpos = 100, ypos = 100 \<rparr>] [] (1/2) (1/2) None None
     = \<lparr> xpos = 410, ypos = 50 \<rparr>"
    using findFreePosition_search_order[of exact_arith "[\<lparr> xpos = 100, ypos = 100 \<rparr>]" "[]" "1/2" "1/2"
        None None, THEN conjunct1] f
    by simp
  have 2: "findFreePosition exact_arith [\<lparr> xpos = 100, ypos = 100 \<rparr>] [] (1/2) (1/2) (Some 300) (Some 120)
       = \<lparr> xpos = 300, ypos = 120 \<rparr>"
    using findFreePosition_search_order[of exact_arith "[\<lparr> xpos = 100, ypos = 100 \<rparr>]" "[]" "1/2" "1/2"
        None None 300 120, THEN conjunct2, THEN conjunct1] p
    by simp
  have 3: "\<not> isPositionFree exact_arith [\<lparr> xpos = 100, ypos = 100 \<rparr>] [] 230 50"
    using findFreePosition_search_order[of exact_arith "[\<lparr> xpos = 100, ypos = 100 \<rparr>]" "[]" "1/2" "1/2"
        None None 300 120 230 50, THEN conjunct2, THEN conjunct2, THEN conjunct1] n
    by simp
  have 4: "expanded_interior \<lparr> xpos = 300, ypos = 120 \<rparr> \<inter> footprint \<lparr> xpos = 100, ypos = 100 \<rparr> = {}"
    using findFreePosition_search_order[of exact_arith "[\<lparr> xpos = 100, ypos = 100 \<rparr>]" "[]" "1/2" "1/2"
        None None 300 120 300 120, THEN conjunct2, THEN conjunct2, THEN conjunct2] p
    by simp
  show ?thesis using 1 p 2 3 4 by (intro conjI)
qed

text \<open>
  A candidate 15 pixels to the right of a placed node: the two footprints grown by
  \<open>minSpacing\<close> on every side intersect, the point \<open>(157, 0)\<close> being in both, and the
  candidate is accepted.
\<close>

theorem acceptance_counterexample:
  "(157, 0) \<in> expanded_rect \<lparr> xpos = 165, ypos = 0 \<rparr> \<inter> expanded_rect \<lparr> xpos = 0, ypos = 0 \<rparr>
   \<and> isPositionFree exact_arith [\<lparr> xpos = 0, ypos = 0 \<rparr>] [] 165 0
   \<and> findFreePosition exact_arith [\<lparr> xpos = 0, ypos = 0 \<rparr>] [] 0 0 (Some 165) (Some 0)
       = \<lparr> xpos = 165, ypos = 0 \<rparr>"
proof -
  have p: "isPositionFree exact_arith [\<lparr> xpos = 0, ypos = 0 \<rparr>] [] 165 0"
    by (simp add: isPositionFree_def overlaps_def Let_def exact_arith_def
        nodeWidth_def nodeHeight_def minSpacing_def)
  then have "findFreePosition exact_arith [\<lparr> xpos = 0, ypos = 0 \<rparr>] [] 0 0 (Some 165) (Some 0)
       = \<lparr> xpos = 165, ypos = 0 \<rparr>"
    by (simp add: findFreePosition_def Let_def nullish_def)
  then show ?thesis
    using p by (simp add: expanded_rect_def nodeWidth_def nodeHeight_def minSpacing_def)
qed

subsection \<open>Full rearrangement\<close>

declare ceil_sqrt_from.simps [simp del]

text \<open>The two roundings on the naturals are the ones the source computes on numbers.\<close>

lemma ceil_sqrt_from_spec:
  "k = 0 \<or> (k - 1) * (k - 1) < n \<Longrightarrow>
   n \<le> ceil_sqrt_from k n * ceil_sqrt_from k n
   \<and> (ceil_sqrt_from k n = 0 \<or> (ceil_sqrt_from k n - 1) * (ceil_sqrt_from k n - 1) < n)"
proof (induction k n rule: ceil_sqrt_from.induct)
  case (1 k n)
  show ?case
  proof (cases "n \<le> k * k")
    case True
    then show ?thesis using 1(2) by (subst (1 2 3 4 5) ceil_sqrt_from.simps) simp
  next
    case False
    then have "Suc k = 0 \<or> (Suc k - 1) * (Suc k - 1) < n" by simp
    from 1(1)[OF False this] show ?thesis
      using False by (subst (1 2 3 4 5) ceil_sqrt_from.simps) simp
  qed
qed

lemma ceil_sqrt_eq: "ceil_sqrt n = nat \<lceil>sqrt (real n)\<rceil>"
proof -
  let ?r = "ceil_sqrt n"
  have s: "n \<le> ?r * ?r" "?r = 0 \<or> (?r - 1) * (?r - 1) < n"
    using ceil_sqrt_from_spec[of 0 n] by (simp_all add: ceil_sqrt_def)
  have up: "sqrt (real n) \<le> real ?r"
  proof -
    have "real n \<le> real (?r * ?r)" using s(1) by (simp only: of_nat_le_iff)
    then have "real n \<le> real ?r * real ?r" by simp
    then have "sqrt (real n) \<le> sqrt (real ?r * real ?r)" by (rule real_sqrt_le_mono)
    also have "sqrt (real ?r * real ?r) = real ?r" by simp
    finally show ?thesis .
  qed
  show ?thesis
  proof (cases "?r = 0")
    case True
    then have "n = 0" using s(1) by simp
    then show ?thesis using True by simp
  next
    case False
    then have "(?r - 1) * (?r - 1) < n" using s(2) by simp
    then have "real ((?r - 1) * (?r - 1)) < real n" by (simp only: of_nat_less_iff)
    then have "real (?r - 1) * real (?r - 1) < real n" by simp
    then have "sqrt (real (?r - 1) * real (?r - 1)) < sqrt (real n)" by (rule real_sqrt_less_mono)
    moreover have "sqrt (real (?r - 1) * real (?r - 1)) = real (?r - 1)" by simp
    ultimately have lo: "real (?r - 1) < sqrt (real n)" by simp
    have "real (?r - 1) = real ?r - 1" using False by (simp add: of_nat_diff)
    then have "of_int (int ?r) - 1 < sqrt (real n)" "sqrt (real n) \<le> of_int (int ?r)"
      using lo up by simp_all
    then have "\<lceil>sqrt (real n)\<rceil> = int ?r" by (rule ceiling_unique)
    then show ?thesis by simp
  qed
qed

lemma ceil_div_eq:
  assumes "0 < b"
  shows "ceil_div a b = nat \<lceil>real a / real b\<rceil>"
proof -
  define q where "q = (a + b - 1) div b"
  define r where "r = (a + b - 1) mod b"
  have e: "a + b - 1 = q * b + r" and rb: "r < b"
    using assms by (simp_all add: q_def r_def)
  have "a + b = q * b + r + 1" using e assms by simp
  then have "real a + real b = real q * real b + real r + 1"
    by (metis of_nat_add of_nat_mult of_nat_1)
  moreover have "real r + 1 \<le> real b" using rb by (metis of_nat_Suc of_nat_le_iff Suc_leI add.commute)
  moreover have "0 \<le> real r" by simp
  ultimately have "real a \<le> real q * real b" "(real q - 1) * real b < real a"
    by (simp_all add: algebra_simps)
  then have "real a / real b \<le> real q" "real q - 1 < real a / real b"
    using assms by (simp_all add: field_simps)
  then have "of_int (int q) - 1 < real a / real b" "real a / real b \<le> of_int (int q)"
    by simp_all
  then have "\<lceil>real a / real b\<rceil> = int q" by (rule ceiling_unique)
  then show ?thesis by (simp add: ceil_div_def q_def)
qed

lemma forEach_position_length [simp]: "length (forEach_position f is c ns) = length ns"
  by (induction "is" arbitrary: c ns) auto

lemma forEach_position_other:
  "j \<notin> set is \<Longrightarrow> forEach_position f is c ns ! j = ns ! j"
  by (induction "is" arbitrary: c ns) auto

lemma forEach_position_data:
  "j < length ns \<Longrightarrow> data (forEach_position f is c ns ! j) = data (ns ! j)"
proof (induction "is" arbitrary: c ns)
  case Nil
  then show ?case by simp
next
  case (Cons i "is")
  then show ?case by (cases "i = j") (auto simp: nth_list_update)
qed

lemma forEach_position_nth:
  "distinct is \<Longrightarrow> \<forall>i \<in> set is. i < length ns \<Longrightarrow> k < length is \<Longrightarrow>
   position (forEach_position f is c ns ! (is ! k)) = f (c + k)"
proof (induction "is" arbitrary: c ns k)
  case Nil
  then show ?case by simp
next
  case (Cons i "is")
  show ?case
  proof (cases k)
    case 0
    then show ?thesis using Cons.prems by (simp add: forEach_position_other)
  next
    case (Suc k')
    then show ?thesis using Cons.prems Cons.IH[of "ns[i := (ns ! i) \<lparr> position := f c \<rparr>]" k' "Suc c"]
      by simp
  qed
qed

lemma filter_upt_nth_rank:
  assumes "j < n" and "P j"
  shows "rank P j < length (filter P [0..<n]) \<and> filter P [0..<n] ! rank P j = j"
proof -
  have "[0..<n] = [0..<j] @ j # [Suc j..<n]"
    using assms(1) by (metis less_imp_le_nat upt_add_eq_append upt_conv_Cons le0 le_add_diff_inverse)
  then have "filter P [0..<n] = filter P [0..<j] @ j # filter P [Suc j..<n]"
    using assms(2) by simp
  then show ?thesis by (simp add: rank_def nth_append)
qed

lemma rank_mono:
  assumes "i < j" and "P i"
  shows "rank P i < rank P j"
proof -
  have "[0..<j] = [0..<i] @ i # [Suc i..<j]"
    using assms(1) by (metis less_imp_le_nat upt_add_eq_append upt_conv_Cons le0 le_add_diff_inverse)
  then have "filter P [0..<j] = filter P [0..<i] @ i # filter P [Suc i..<j]"
    using assms(2) by simp
  then show ?thesis by (simp add: rank_def)
qed

lemma forEach_position_band:
  assumes "j < length ns" and "P j"
  shows "position (forEach_position f (filter P [0..<length ns]) 0 ns ! j) = f (rank P j)"
proof -
  let ?is = "filter P [0..<length ns]"
  have r: "rank P j < length ?is" "?is ! rank P j = j"
    using filter_upt_nth_rank[of j "length ns" P] assms by simp_all
  have "position (forEach_position f ?is 0 ns ! (?is ! rank P j)) = f (0 + rank P j)"
    by (rule forEach_position_nth) (use r in auto)
  then show ?thesis using r by simp
qed

lemma forEach_position_band':
  assumes "j < length ns'" and "P j" and "length ns' = n"
  shows "position (forEach_position f (filter P [0..<n]) 0 ns' ! j) = f (rank P j)"
  using forEach_position_band[of j ns' P f] assms by simp

lemma forEach_position_skip:
  assumes "\<not> P j"
  shows "forEach_position f (filter P [0..<n]) 0 ns' ! j = ns' ! j"
  by (rule forEach_position_other) (use assms in simp)

lemma triggers_band: "triggers ns = filter (band_trigger ns) [0..<length ns]"
  by (simp add: triggers_def band_trigger_def[abs_def])
lemma actions_band: "actions ns = filter (band_action ns) [0..<length ns]"
  by (simp add: actions_def band_action_def[abs_def])
lemma outputs_band: "outputs ns = filter (band_output ns) [0..<length ns]"
  by (simp add: outputs_def band_output_def[abs_def])
lemma compliance_band: "compliance ns = filter (band_compliance ns) [0..<length ns]"
  by (simp add: compliance_def band_compliance_def[abs_def])
lemma others_band: "others ns = filter (band_other ns) [0..<length ns]"
  unfolding others_def triggers_band actions_band outputs_band compliance_band
  by (rule filter_cong) (auto simp: band_other_def)

lemmas spacing_defs = baseX_def horizontalSpacing_def verticalSpacing_def nodeWidth_def
  nodeHeight_def minSpacing_def sectionSpacing_def

lemma band_exclusive:
  "band_trigger ns j \<Longrightarrow> \<not> band_action ns j \<and> \<not> band_output ns j"
  "band_action ns j \<Longrightarrow> \<not> band_output ns j"
  by (auto simp: band_trigger_def band_action_def band_output_def)

lemma arrange_position:
  assumes j: "j < length ns"
  shows "position (arrangeNodesIntelligently ns ! j) = arranged_position ns j"
proof -
  define fT where "fT = (\<lambda>index. \<lparr> xpos = baseX + (real index * horizontalSpacing), ypos = 50 \<rparr>)"
  define fA where "fA = (\<lambda>index. let row = index div actionsPerRow ns; col = index mod actionsPerRow ns
                            in \<lparr> xpos = baseX + (real col * horizontalSpacing),
                                 ypos = currentY1 ns + (real row * verticalSpacing) \<rparr>)"
  define fX where "fX = (\<lambda>index. let row = index div othersPerRow ns; col = index mod othersPerRow ns
                            in \<lparr> xpos = baseX + (real col * horizontalSpacing),
                                 ypos = currentY2 ns + (real row * verticalSpacing) \<rparr>)"
  define fO where "fO = (\<lambda>index. \<lparr> xpos = baseX + (real index * horizontalSpacing), ypos = currentY3 ns \<rparr>)"
  define fC where "fC = (\<lambda>index. \<lparr> xpos = complianceStartX ns, ypos = 50 + (real index * verticalSpacing) \<rparr>)"
  define ns1 where "ns1 = forEach_position fT (triggers ns) 0 ns"
  define ns2 where "ns2 = forEach_position fA (actions ns) 0 ns1"
  define ns3 where "ns3 = forEach_position fX (others ns) 0 ns2"
  define ns4 where "ns4 = forEach_position fO (outputs ns) 0 ns3"
  have res: "arrangeNodesIntelligently ns = forEach_position fC (compliance ns) 0 ns4"
    by (simp add: arrangeNodesIntelligently_def ns4_def ns3_def ns2_def ns1_def fT_def fA_def fX_def
        fO_def fC_def Let_def)
  have len: "length ns1 = length ns" "length ns2 = length ns" "length ns3 = length ns"
    "length ns4 = length ns"
    by (simp_all add: ns1_def ns2_def ns3_def ns4_def)
  show ?thesis
  proof (cases "band_compliance ns j")
    case True
    have "position (forEach_position fC (filter (band_compliance ns) [0..<length ns]) 0 ns4 ! j)
            = fC (rank (band_compliance ns) j)"
      by (rule forEach_position_band') (use j True len in auto)
    then show ?thesis
      using True by (simp add: res compliance_band arranged_position_def fC_def spacing_defs)
  next
    case C: False
    have r4: "arrangeNodesIntelligently ns ! j = ns4 ! j"
      unfolding res compliance_band by (rule forEach_position_skip) (rule C)
    show ?thesis
    proof (cases "band_output ns j")
      case True
      have "position (forEach_position fO (filter (band_output ns) [0..<length ns]) 0 ns3 ! j)
              = fO (rank (band_output ns) j)"
        by (rule forEach_position_band') (use j True len in auto)
      then show ?thesis
        using True C by (simp add: r4 ns4_def outputs_band arranged_position_def fO_def spacing_defs)
    next
      case O: False
      have r3: "ns4 ! j = ns3 ! j"
        unfolding ns4_def outputs_band by (rule forEach_position_skip) (rule O)
      show ?thesis
      proof (cases "band_other ns j")
        case True
        have "position (forEach_position fX (filter (band_other ns) [0..<length ns]) 0 ns2 ! j)
                = fX (rank (band_other ns) j)"
          by (rule forEach_position_band') (use j True len in auto)
        then show ?thesis
          using True C O
          by (simp add: r4 r3 ns3_def others_band arranged_position_def fX_def spacing_defs Let_def)
      next
        case X: False
        have r2: "ns3 ! j = ns2 ! j"
          unfolding ns3_def others_band by (rule forEach_position_skip) (rule X)
        show ?thesis
        proof (cases "band_action ns j")
          case True
          have "position (forEach_position fA (filter (band_action ns) [0..<length ns]) 0 ns1 ! j)
                  = fA (rank (band_action ns) j)"
            by (rule forEach_position_band') (use j True len in auto)
          then show ?thesis
            using True C O X
            by (simp add: r4 r3 r2 ns2_def actions_band arranged_position_def fA_def spacing_defs Let_def)
        next
          case A: False
          have r1: "ns2 ! j = ns1 ! j"
            unfolding ns2_def actions_band by (rule forEach_position_skip) (rule A)
          have T: "band_trigger ns j"
            using C O X A by (simp add: band_other_def)
          have "position (forEach_position fT (filter (band_trigger ns) [0..<length ns]) 0 ns ! j)
                  = fT (rank (band_trigger ns) j)"
            by (rule forEach_position_band') (use j T in auto)
          then show ?thesis
            using T C O X A
            by (simp add: r4 r3 r2 r1 ns1_def triggers_band arranged_position_def fT_def spacing_defs)
        qed
      qed
    qed
  qed
qed

lemma step_apart_sym: "step_apart p q \<longleftrightarrow> step_apart q p"
  by (auto simp: step_apart_def)

lemma step_apart_x: "xpos p + 180 \<le> xpos q \<Longrightarrow> step_apart p q"
  by (simp add: step_apart_def spacing_defs)

lemma step_apart_y: "ypos p + 110 \<le> ypos q \<Longrightarrow> step_apart p q"
  by (simp add: step_apart_def spacing_defs)

lemma step_apart_gap: "step_apart p q \<Longrightarrow> gap_ok p q"
  by (auto simp: step_apart_def gap_ok_def spacing_defs)

lemma step_apart_rects: "step_apart p q \<Longrightarrow> expanded_rect p \<inter> expanded_rect q = {}"
  by (auto simp: step_apart_def expanded_rect_def spacing_defs)

lemma ceil_sqrt_from_ge: "k \<le> ceil_sqrt_from k n"
proof (induction k n rule: ceil_sqrt_from.induct)
  case (1 k n)
  show ?case
  proof (cases "n \<le> k * k")
    case True
    then show ?thesis by (subst ceil_sqrt_from.simps) simp
  next
    case False
    then show ?thesis using 1 by (subst ceil_sqrt_from.simps) simp
  qed
qed

lemma actionsPerRow_bounds: "2 \<le> actionsPerRow ns" "actionsPerRow ns \<le> 4"
  by (simp_all add: actionsPerRow_def)

lemma othersPerRow_bounds: "2 \<le> othersPerRow ns" "othersPerRow ns \<le> 3"
  by (simp_all add: othersPerRow_def)

lemma div_less_ceil_div:
  assumes "k < n" and "0 < b"
  shows "k div b < ceil_div n b"
proof -
  have "k div b \<le> (n - 1) div b" using assms by (intro div_le_mono) simp
  moreover have "(n - 1 + b) div b = (n - 1) div b + 1"
    using assms(2) by simp
  moreover have "n - 1 + b = n + b - 1" using assms by simp
  ultimately show ?thesis by (simp add: ceil_div_def)
qed

lemma currentY_chain:
  "50 \<le> currentY1 ns" "currentY1 ns \<le> currentY2 ns" "currentY2 ns \<le> currentY3 ns"
  by (simp_all add: currentY1_def currentY2_def currentY3_def spacing_defs)

lemma rank_less_band:
  "j < length ns \<Longrightarrow> P j \<Longrightarrow> rank P j < length (filter P [0..<length ns])"
  using filter_upt_nth_rank[of j "length ns" P] by simp

lemma rank_neq:
  assumes "i \<noteq> j" "P i" "P j"
  shows "rank P i \<noteq> rank P j"
proof (cases "i < j")
  case True
  then show ?thesis using rank_mono[of i j P] assms by simp
next
  case False
  then have "j < i" using assms by simp
  then show ?thesis using rank_mono[of j i P] assms by simp
qed

lemma real_nat_apart:
  fixes a b :: nat
  assumes "a \<noteq> b"
  shows "real a + 1 \<le> real b \<or> real b + 1 \<le> real a"
proof (cases "a < b")
  case True
  then have "a + 1 \<le> b" by simp
  then have "real (a + 1) \<le> real b" by (simp only: of_nat_le_iff)
  then show ?thesis by simp
next
  case False
  then have "b + 1 \<le> a" using assms by simp
  then have "real (b + 1) \<le> real a" by (simp only: of_nat_le_iff)
  then show ?thesis by simp
qed

lemma row_gap:
  assumes "a \<noteq> b"
  shows "step_apart \<lparr> xpos = 50 + real a * 180, ypos = y \<rparr> \<lparr> xpos = 50 + real b * 180, ypos = y' \<rparr>"
  using real_nat_apart[OF assms] by (auto simp: step_apart_def spacing_defs)

lemma column_gap:
  assumes "a \<noteq> b"
  shows "step_apart \<lparr> xpos = x, ypos = y + real a * 110 \<rparr> \<lparr> xpos = x', ypos = y + real b * 110 \<rparr>"
  using real_nat_apart[OF assms] by (auto simp: step_apart_def spacing_defs)

lemma tile_gap:
  assumes "a \<noteq> b"
  shows "step_apart \<lparr> xpos = 50 + real (a mod p) * 180, ypos = y + real (a div p) * 110 \<rparr>
                \<lparr> xpos = 50 + real (b mod p) * 180, ypos = y + real (b div p) * 110 \<rparr>"
proof (cases "a div p = b div p")
  case True
  then have "a mod p \<noteq> b mod p" using assms by (metis div_mult_mod_eq)
  then show ?thesis by (rule row_gap)
next
  case False
  then show ?thesis by (rule column_gap)
qed

lemma C_facts:
  assumes "band_compliance ns j"
  shows "arranged_position ns j
           = \<lparr> xpos = complianceStartX ns, ypos = 50 + real (rank (band_compliance ns) j) * 110 \<rparr>"
  using assms by (simp add: arranged_position_def)

lemma O_facts:
  assumes "j < length ns" "\<not> band_compliance ns j" "band_output ns j"
  shows "arranged_position ns j
           = \<lparr> xpos = 50 + real (rank (band_output ns) j) * 180, ypos = currentY3 ns \<rparr>"
    and "50 + real (rank (band_output ns) j) * 180 + 220 \<le> complianceStartX ns"
proof -
  show "arranged_position ns j
           = \<lparr> xpos = 50 + real (rank (band_output ns) j) * 180, ypos = currentY3 ns \<rparr>"
    using assms by (simp add: arranged_position_def)
  have "rank (band_output ns) j < length (outputs ns)"
    unfolding outputs_band by (rule rank_less_band) (use assms in auto)
  then have "rank (band_output ns) j + 1
               \<le> max (max (actionsPerRow ns) (othersPerRow ns)) (length (outputs ns))"
    by simp
  then have "real (rank (band_output ns) j + 1)
               \<le> real (max (max (actionsPerRow ns) (othersPerRow ns)) (length (outputs ns)))"
    by (simp only: of_nat_le_iff)
  then show "50 + real (rank (band_output ns) j) * 180 + 220 \<le> complianceStartX ns"
    by (simp add: complianceStartX_def spacing_defs)
qed

lemma X_facts:
  assumes "j < length ns" "\<not> band_compliance ns j" "\<not> band_output ns j" "band_other ns j"
  defines "k \<equiv> rank (band_other ns) j"
  shows "arranged_position ns j
           = \<lparr> xpos = 50 + real (k mod othersPerRow ns) * 180,
               ypos = currentY2 ns + real (k div othersPerRow ns) * 110 \<rparr>"
    and "50 + real (k mod othersPerRow ns) * 180 + 220 \<le> complianceStartX ns"
    and "currentY2 ns + real (k div othersPerRow ns) * 110 + 150 \<le> currentY3 ns"
proof -
  show "arranged_position ns j
           = \<lparr> xpos = 50 + real (k mod othersPerRow ns) * 180,
               ypos = currentY2 ns + real (k div othersPerRow ns) * 110 \<rparr>"
    using assms by (simp add: arranged_position_def)
  have p: "0 < othersPerRow ns" using othersPerRow_bounds(1)[of ns] by simp
  have klt: "k < length (others ns)"
    unfolding others_band k_def by (rule rank_less_band) (use assms in auto)
  have "k mod othersPerRow ns + 1 \<le> max (max (actionsPerRow ns) (othersPerRow ns)) (length (outputs ns))"
    using mod_less_divisor[OF p, of k] by simp
  then have "real (k mod othersPerRow ns + 1)
               \<le> real (max (max (actionsPerRow ns) (othersPerRow ns)) (length (outputs ns)))"
    by (simp only: of_nat_le_iff)
  then show "50 + real (k mod othersPerRow ns) * 180 + 220 \<le> complianceStartX ns"
    by (simp add: complianceStartX_def spacing_defs)
  have "k div othersPerRow ns + 1 \<le> ceil_div (length (others ns)) (othersPerRow ns)"
    using div_less_ceil_div[OF klt p] by simp
  then have "real (k div othersPerRow ns + 1) \<le> real (ceil_div (length (others ns)) (othersPerRow ns))"
    by (simp only: of_nat_le_iff)
  moreover have "length (others ns) > 0" using klt by (cases "others ns") simp_all
  ultimately show "currentY2 ns + real (k div othersPerRow ns) * 110 + 150 \<le> currentY3 ns"
    by (simp add: currentY3_def spacing_defs)
qed

lemma A_facts:
  assumes "j < length ns" "\<not> band_compliance ns j" "\<not> band_output ns j" "\<not> band_other ns j"
    "band_action ns j"
  defines "k \<equiv> rank (band_action ns) j"
  shows "arranged_position ns j
           = \<lparr> xpos = 50 + real (k mod actionsPerRow ns) * 180,
               ypos = currentY1 ns + real (k div actionsPerRow ns) * 110 \<rparr>"
    and "50 + real (k mod actionsPerRow ns) * 180 + 220 \<le> complianceStartX ns"
    and "currentY1 ns + real (k div actionsPerRow ns) * 110 + 150 \<le> currentY2 ns"
proof -
  show "arranged_position ns j
           = \<lparr> xpos = 50 + real (k mod actionsPerRow ns) * 180,
               ypos = currentY1 ns + real (k div actionsPerRow ns) * 110 \<rparr>"
    using assms by (simp add: arranged_position_def)
  have p: "0 < actionsPerRow ns" using actionsPerRow_bounds(1)[of ns] by simp
  have klt: "k < length (actions ns)"
    unfolding actions_band k_def by (rule rank_less_band) (use assms in auto)
  have "k mod actionsPerRow ns + 1 \<le> max (max (actionsPerRow ns) (othersPerRow ns)) (length (outputs ns))"
    using mod_less_divisor[OF p, of k] by simp
  then have "real (k mod actionsPerRow ns + 1)
               \<le> real (max (max (actionsPerRow ns) (othersPerRow ns)) (length (outputs ns)))"
    by (simp only: of_nat_le_iff)
  then show "50 + real (k mod actionsPerRow ns) * 180 + 220 \<le> complianceStartX ns"
    by (simp add: complianceStartX_def spacing_defs)
  have "k div actionsPerRow ns + 1 \<le> ceil_div (length (actions ns)) (actionsPerRow ns)"
    using div_less_ceil_div[OF klt p] by simp
  then have "real (k div actionsPerRow ns + 1) \<le> real (ceil_div (length (actions ns)) (actionsPerRow ns))"
    by (simp only: of_nat_le_iff)
  moreover have "length (actions ns) > 0" using klt by (cases "actions ns") simp_all
  ultimately show "currentY1 ns + real (k div actionsPerRow ns) * 110 + 150 \<le> currentY2 ns"
    by (simp add: currentY2_def spacing_defs)
qed

lemma T_facts:
  assumes "j < length ns" "\<not> band_compliance ns j" "\<not> band_output ns j" "\<not> band_other ns j"
    "\<not> band_action ns j"
  shows "arranged_position ns j = \<lparr> xpos = 50 + real (rank (band_trigger ns) j) * 180, ypos = 50 \<rparr>"
    and "currentY1 ns = 200"
    and "band_trigger ns j"
proof -
  show "arranged_position ns j = \<lparr> xpos = 50 + real (rank (band_trigger ns) j) * 180, ypos = 50 \<rparr>"
    using assms by (simp add: arranged_position_def)
  show t: "band_trigger ns j" using assms by (simp add: band_other_def)
  have "rank (band_trigger ns) j < length (triggers ns)"
    unfolding triggers_band by (rule rank_less_band) (use assms t in auto)
  then have "length (triggers ns) > 0" by (cases "triggers ns") simp_all
  then show "currentY1 ns = 200" by (simp add: currentY1_def spacing_defs)
qed

lemma rank_pos_if_earlier:
  assumes "i < j" "P i"
  shows "1 \<le> rank P j"
  using rank_mono[of i j P] assms by simp

lemma not_first_locked_rank:
  assumes "j < length ns" "band_compliance ns j" "\<not> first_locked ns j"
  shows "1 \<le> rank (band_compliance ns) j"
proof -
  from assms have "\<not> list_all (\<lambda>n. \<not> locked (data n)) (take j ns)"
    by (simp add: first_locked_def band_compliance_def)
  then obtain n where "n \<in> set (take j ns)" "locked (data n)"
    by (auto simp: list_all_iff)
  then obtain i where "i < j" "locked (data (ns ! i))"
    using assms(1) by (auto simp: in_set_conv_nth)
  then show ?thesis
    using rank_pos_if_earlier[of i j "band_compliance ns"] by (simp add: band_compliance_def)
qed

lemma arranged_gap_ordered:
  assumes a: "a < length ns" and b: "b < length ns" and ab: "a \<noteq> b"
    and ex: "\<not> unsettled_pair ns b a"
    and ord: "band_compliance ns a \<or> (\<not> band_compliance ns b \<and> (band_output ns a \<or> (\<not> band_output ns b
               \<and> (band_other ns a \<or> (\<not> band_other ns b \<and> (band_action ns a \<or> \<not> band_action ns b))))))"
  shows "step_apart (arranged_position ns b) (arranged_position ns a)"
proof (cases "band_compliance ns a")
  case Ca: True
  note pa = C_facts[OF Ca]
  show ?thesis
  proof (cases "band_compliance ns b")
    case True
    have "rank (band_compliance ns) b \<noteq> rank (band_compliance ns) a"
      using rank_neq[of b a "band_compliance ns"] ab True Ca by simp
    then show ?thesis
      unfolding pa C_facts[OF True]
      using column_gap[of "rank (band_compliance ns) b" "rank (band_compliance ns) a" _ 50]
      by (simp add: add.commute mult.commute)
  next
    case Cb: False
    show ?thesis
    proof (cases "band_output ns b")
      case True
      show ?thesis
        unfolding pa O_facts(1)[OF b Cb True]
        using O_facts(2)[OF b Cb True] by (intro step_apart_x) simp
    next
      case Ob: False
      show ?thesis
      proof (cases "band_other ns b")
        case True
        show ?thesis
          unfolding pa X_facts(1)[OF b Cb Ob True]
          using X_facts(2)[OF b Cb Ob True] by (intro step_apart_x) simp
      next
        case Xb: False
        show ?thesis
        proof (cases "band_action ns b")
          case True
          show ?thesis
            unfolding pa A_facts(1)[OF b Cb Ob Xb True]
            using A_facts(2)[OF b Cb Ob Xb True] by (intro step_apart_x) simp
        next
          case Ab: False
          have tb: "trigger_row ns b"
            using T_facts(3)[OF b Cb Ob Xb Ab] Cb
            by (simp add: trigger_row_def band_trigger_def band_compliance_def)
          let ?k = "rank (band_trigger ns) b"
          have "\<not> first_locked ns a \<or> (?k \<noteq> widest ns \<and> ?k \<noteq> Suc (widest ns))"
            using ex tb by (auto simp: unsettled_pair_def)
          then consider "\<not> first_locked ns a" | "?k < widest ns" | "Suc (widest ns) < ?k"
            by linarith
          then show ?thesis
          proof cases
            case 1
            then have "1 \<le> rank (band_compliance ns) a"
              using not_first_locked_rank[OF a Ca] by simp
            then have "real 1 \<le> real (rank (band_compliance ns) a)"
              by (simp only: of_nat_le_iff)
            then show ?thesis
              unfolding pa T_facts(1)[OF b Cb Ob Xb Ab]
              by (intro step_apart_y) simp
          next
            case 2
            then have "?k + 1 \<le> widest ns" by simp
            then have "real (?k + 1) \<le> real (widest ns)" by (simp only: of_nat_le_iff)
            then have "50 + real ?k * 180 + 180 \<le> complianceStartX ns"
              by (simp add: complianceStartX_def widest_def spacing_defs)
            then show ?thesis
              unfolding pa T_facts(1)[OF b Cb Ob Xb Ab]
              by (intro step_apart_x) simp
          next
            case 3
            then have "widest ns + 2 \<le> ?k" by simp
            then have "real (widest ns + 2) \<le> real ?k" by (simp only: of_nat_le_iff)
            then have "complianceStartX ns + 180 \<le> 50 + real ?k * 180"
              by (simp add: complianceStartX_def widest_def spacing_defs)
            then have "step_apart \<lparr> xpos = complianceStartX ns,
                                ypos = 50 + real (rank (band_compliance ns) a) * 110 \<rparr>
                              \<lparr> xpos = 50 + real ?k * 180, ypos = 50 \<rparr>"
              by (intro step_apart_x) simp
            then show ?thesis
              unfolding pa T_facts(1)[OF b Cb Ob Xb Ab] by (simp add: step_apart_sym)
          qed
        qed
      qed
    qed
  qed
next
  case Ca: False
  then have Cb: "\<not> band_compliance ns b" using ord by simp
  show ?thesis
  proof (cases "band_output ns a")
    case Oa: True
    note pa = O_facts(1)[OF a Ca Oa]
    show ?thesis
    proof (cases "band_output ns b")
      case True
      have "rank (band_output ns) b \<noteq> rank (band_output ns) a"
        using rank_neq[of b a "band_output ns"] ab True Oa by simp
      then show ?thesis
        unfolding pa O_facts(1)[OF b Cb True] by (rule row_gap)
    next
      case Ob: False
      show ?thesis
      proof (cases "band_other ns b")
        case True
        show ?thesis
          unfolding pa X_facts(1)[OF b Cb Ob True]
          using X_facts(3)[OF b Cb Ob True] by (intro step_apart_y) simp
      next
        case Xb: False
        show ?thesis
        proof (cases "band_action ns b")
          case True
          show ?thesis
            unfolding pa A_facts(1)[OF b Cb Ob Xb True]
            using A_facts(3)[OF b Cb Ob Xb True] currentY_chain(3)[of ns]
            by (intro step_apart_y) simp
        next
          case Ab: False
          show ?thesis
            unfolding pa T_facts(1)[OF b Cb Ob Xb Ab]
            using T_facts(2)[OF b Cb Ob Xb Ab] currentY_chain(2,3)[of ns]
            by (intro step_apart_y) simp
        qed
      qed
    qed
  next
    case Oa: False
    then have Ob: "\<not> band_output ns b" using ord Ca by simp
    show ?thesis
    proof (cases "band_other ns a")
      case Xa: True
      note pa = X_facts(1)[OF a Ca Oa Xa]
      show ?thesis
      proof (cases "band_other ns b")
        case True
        have "rank (band_other ns) b \<noteq> rank (band_other ns) a"
          using rank_neq[of b a "band_other ns"] ab True Xa by simp
        then show ?thesis
          unfolding pa X_facts(1)[OF b Cb Ob True] by (rule tile_gap)
      next
        case Xb: False
        show ?thesis
        proof (cases "band_action ns b")
          case True
          show ?thesis
            unfolding pa A_facts(1)[OF b Cb Ob Xb True]
            using A_facts(3)[OF b Cb Ob Xb True]
            by (intro step_apart_y) simp
        next
          case Ab: False
          show ?thesis
            unfolding pa T_facts(1)[OF b Cb Ob Xb Ab]
            using T_facts(2)[OF b Cb Ob Xb Ab] currentY_chain(2)[of ns]
            by (intro step_apart_y) simp
        qed
      qed
    next
      case Xa: False
      then have Xb: "\<not> band_other ns b" using ord Ca Oa by simp
      show ?thesis
      proof (cases "band_action ns a")
        case Aa: True
        note pa = A_facts(1)[OF a Ca Oa Xa Aa]
        show ?thesis
        proof (cases "band_action ns b")
          case True
          have "rank (band_action ns) b \<noteq> rank (band_action ns) a"
            using rank_neq[of b a "band_action ns"] ab True Aa by simp
          then show ?thesis
            unfolding pa A_facts(1)[OF b Cb Ob Xb True] by (rule tile_gap)
        next
          case Ab: False
          show ?thesis
            unfolding pa T_facts(1)[OF b Cb Ob Xb Ab]
            using T_facts(2)[OF b Cb Ob Xb Ab]
            by (intro step_apart_y) simp
        qed
      next
        case Aa: False
        then have Ab: "\<not> band_action ns b" using ord Ca Oa Xa by simp
        have "rank (band_trigger ns) b \<noteq> rank (band_trigger ns) a"
          using rank_neq[of b a "band_trigger ns"] ab
            T_facts(3)[OF a Ca Oa Xa Aa] T_facts(3)[OF b Cb Ob Xb Ab] by simp
        then show ?thesis
          unfolding T_facts(1)[OF a Ca Oa Xa Aa] T_facts(1)[OF b Cb Ob Xb Ab] by (rule row_gap)
      qed
    qed
  qed
qed

lemma arranged_gap:
  assumes i: "i < length ns" and j: "j < length ns" and ij: "i \<noteq> j"
    and ex1: "\<not> unsettled_pair ns i j"
    and ex2: "\<not> unsettled_pair ns j i"
  shows "step_apart (arranged_position ns i) (arranged_position ns j)"
proof (cases "band_compliance ns j \<or> (\<not> band_compliance ns i \<and> (band_output ns j \<or> (\<not> band_output ns i
               \<and> (band_other ns j \<or> (\<not> band_other ns i \<and> (band_action ns j \<or> \<not> band_action ns i))))))")
  case True
  show ?thesis
    by (rule arranged_gap_ordered[OF j i _ ex1 True]) (use ij in simp)
next
  case False
  then have "band_compliance ns i \<or> (\<not> band_compliance ns j \<and> (band_output ns i \<or> (\<not> band_output ns j
               \<and> (band_other ns i \<or> (\<not> band_other ns j \<and> (band_action ns i \<or> \<not> band_action ns j))))))"
    by blast
  then have "step_apart (arranged_position ns j) (arranged_position ns i)"
    by (rule arranged_gap_ordered[OF i j ij ex2])
  then show ?thesis by (simp add: step_apart_sym)
qed

lemma widest_ge: "2 \<le> widest ns"
  using actionsPerRow_bounds(1)[of ns] by (simp add: widest_def)

lemma few_triggers_settled:
  assumes "i < length ns" and "length (triggers ns) \<le> widest ns"
  shows "\<not> unsettled_pair ns i j"
proof
  assume u: "unsettled_pair ns i j"
  then have "band_trigger ns i" by (simp add: unsettled_pair_def trigger_row_def band_trigger_def)
  then have "rank (band_trigger ns) i < length (triggers ns)"
    unfolding triggers_band using assms(1) by (intro rank_less_band)
  then show False using u assms(2) by (auto simp: unsettled_pair_def)
qed

lemma free_at_iff_spaced: "free_at fp a p c \<longleftrightarrow> (\<forall>q \<in> set (a @ p). spaced fp c q)"
  by (simp add: free_at_def isPositionFree_iff_spaced)

lemma findFreePosition_free:
  assumes "\<exists>c \<in> set (search_order fp px py). free_at fp a p c"
  shows "free_at fp a p (findFreePosition fp a p r1 r2 px py)"
proof -
  from assms obtain c where "find (free_at fp a p) (search_order fp px py) = Some c"
    by (cases "find (free_at fp a p) (search_order fp px py)") (auto simp: find_None_iff)
  moreover from this have "free_at fp a p c" by (auto simp: find_Some_iff)
  ultimately show ?thesis by (simp add: findFreePosition_find)
qed

text \<open>
  A canvas with a node on each of the eighty grid positions, in a faithful arithmetic:
  the grid positions are computed exactly, every candidate of the search is within 90
  pixels horizontally and 55 pixels vertically of a grid position, with room for the
  rounding, so none is accepted, and the last resort with both random numbers 0 is
  \<open>(100, 100)\<close>.
\<close>

lemma faithful_exact: "faithful exact_arith"
  by (simp add: faithful_def exact_arith_def)

lemma faithful_int:
  assumes "faithful fp" "\<bar>m\<bar> \<le> 4096" "\<bar>n\<bar> \<le> 4096"
  shows "fadd fp (of_int m) (of_int n) = of_int (m + n)"
    and "fmul fp (of_int m) (of_int n) = of_int (m * n)"
  using assms by (simp_all add: faithful_def)

lemma faithful_add:
  assumes "faithful fp" "\<bar>a\<bar> \<le> 4096" "\<bar>b\<bar> \<le> 4096"
  shows "\<bar>fadd fp a b - (a + b)\<bar> \<le> 1"
  using assms by (simp add: faithful_def)

lemma faithful_mul:
  assumes "faithful fp" "\<bar>a\<bar> \<le> 4096" "\<bar>b\<bar> \<le> 1"
  shows "\<bar>fmul fp a b - a * b\<bar> \<le> 1"
  using assms by (simp add: faithful_def)

lemma faithful_trig:
  assumes "faithful fp"
  shows "\<bar>Math_cos fp x\<bar> \<le> 1" "\<bar>Math_sin fp x\<bar> \<le> 1"
  using assms by (simp_all add: faithful_def)

lemma grid_point_faithful:
  assumes f: "faithful fp" and r: "row < 10" and c: "col < 8"
  shows "grid_point fp row col = \<lparr> xpos = 50 + real col * 180, ypos = 50 + real row * 110 \<rparr>"
proof -
  have w: "fadd fp (fadd fp nodeWidth minSpacing) 20 = 180"
    using faithful_int(1)[OF f, of 150 10] faithful_int(1)[OF f, of 160 20]
    by (simp add: nodeWidth_def minSpacing_def)
  have h: "fadd fp (fadd fp nodeHeight minSpacing) 20 = 110"
    using faithful_int(1)[OF f, of 80 10] faithful_int(1)[OF f, of 90 20]
    by (simp add: nodeHeight_def minSpacing_def)
  have x1: "fmul fp (real col) 180 = real col * 180"
    using faithful_int(2)[OF f, of "int col" 180] c by simp
  have x2: "fadd fp 50 (real col * 180) = 50 + real col * 180"
    using faithful_int(1)[OF f, of 50 "int col * 180"] c by simp
  have y1: "fmul fp (real row) 110 = real row * 110"
    using faithful_int(2)[OF f, of "int row" 110] r by simp
  have y2: "fadd fp 50 (real row * 110) = 50 + real row * 110"
    using faithful_int(1)[OF f, of 50 "int row * 110"] r by simp
  show ?thesis by (simp add: grid_point_def w h x1 x2 y1 y2)
qed

lemma grid_point_exact:
  "grid_point exact_arith row col = \<lparr> xpos = 50 + real col * 180, ypos = 50 + real row * 110 \<rparr>"
  by (simp add: grid_point_def exact_arith_def nodeWidth_def nodeHeight_def minSpacing_def)

lemma grid_point_in_candidates:
  "row < 10 \<Longrightarrow> col < 8 \<Longrightarrow> grid_point fp row col \<in> set (grid_candidates fp)"
  by (force simp: grid_candidates_def)

lemma nearest_index:
  fixes z :: real
  assumes "0 \<le> z"
  shows "\<exists>c :: nat. real c \<le> z + 1/2 \<and> z + 1/2 < real c + 1"
proof -
  let ?k = "\<lfloor>z + 1/2\<rfloor>"
  have "0 \<le> ?k" using assms by simp
  then have "real (nat ?k) = of_int ?k" by simp
  moreover have "of_int ?k \<le> z + 1/2" by (rule of_int_floor_le)
  moreover have "z + 1/2 < of_int ?k + 1" by linarith
  ultimately show ?thesis by (intro exI[of _ "nat ?k"]) simp
qed

text \<open>A position within 90 and 55 pixels of a grid position overlaps it.\<close>

lemma near_grid_overlaps:
  assumes f: "faithful fp" and r: "row < 10" and c: "col < 8"
    and x: "\<bar>x - (50 + real col * 180)\<bar> \<le> 90" and y: "\<bar>y - (50 + real row * 110)\<bar> \<le> 55"
  shows "overlaps fp x y (grid_point fp row col)"
proof -
  let ?gx = "50 + real col * 180" and ?gy = "50 + real row * 110"
  have cb: "real col \<le> 7" using c by simp
  have rb: "real row \<le> 9" using r by simp
  have xb: "\<bar>x\<bar> \<le> 4096" using x cb by (simp add: abs_le_iff)
  have yb: "\<bar>y\<bar> \<le> 4096" using y rb by (simp add: abs_le_iff)
  have x1: "\<bar>fadd fp x 150 - (x + 150)\<bar> \<le> 1" using faithful_add[OF f xb, of 150] by simp
  then have x1b: "\<bar>fadd fp x 150\<bar> \<le> 4096" using x cb by (simp add: abs_le_iff)
  have x2: "\<bar>fadd fp (fadd fp x 150) 10 - (fadd fp x 150 + 10)\<bar> \<le> 1"
    using faithful_add[OF f x1b, of 10] by simp
  have y1: "\<bar>fadd fp y 80 - (y + 80)\<bar> \<le> 1" using faithful_add[OF f yb, of 80] by simp
  then have y1b: "\<bar>fadd fp y 80\<bar> \<le> 4096" using y rb by (simp add: abs_le_iff)
  have y2: "\<bar>fadd fp (fadd fp y 80) 10 - (fadd fp y 80 + 10)\<bar> \<le> 1"
    using faithful_add[OF f y1b, of 10] by simp
  have gx: "fadd fp (fadd fp ?gx 150) 10 = ?gx + 160"
    using faithful_int(1)[OF f, of "50 + int col * 180" 150]
      faithful_int(1)[OF f, of "200 + int col * 180" 10] c
    by (simp add: add.commute)
  have gy: "fadd fp (fadd fp ?gy 80) 10 = ?gy + 90"
    using faithful_int(1)[OF f, of "50 + int row * 110" 80]
      faithful_int(1)[OF f, of "130 + int row * 110" 10] r
    by (simp add: add.commute)
  have hx: "\<not> (fadd fp (fadd fp x 150) 10 \<le> ?gx \<or> x \<ge> fadd fp (fadd fp ?gx 150) 10)"
    unfolding gx using x x1 x2 by (simp add: abs_le_iff)
  have hy: "\<not> (fadd fp (fadd fp y 80) 10 \<le> ?gy \<or> y \<ge> fadd fp (fadd fp ?gy 80) 10)"
    unfolding gy using y y1 y2 by (simp add: abs_le_iff)
  show ?thesis
    using hx hy
    by (simp add: overlaps_def Let_def grid_point_faithful[OF f r c]
        nodeWidth_def nodeHeight_def minSpacing_def)
qed

lemma grid_blocks:
  assumes f: "faithful fp" and "50 \<le> x" "x \<le> 702" "50 \<le> y" "y \<le> 602"
  shows "\<exists>g \<in> set (grid_candidates fp). overlaps fp x y g"
proof -
  obtain c :: nat where c: "real c \<le> (x - 50) / 180 + 1/2" "(x - 50) / 180 + 1/2 < real c + 1"
    using nearest_index[of "(x - 50) / 180"] assms by auto
  obtain r :: nat where r: "real r \<le> (y - 50) / 110 + 1/2" "(y - 50) / 110 + 1/2 < real r + 1"
    using nearest_index[of "(y - 50) / 110"] assms by auto
  have "real c < real 8" using c(1) assms(3) by (simp add: field_simps)
  then have c8: "c < 8" by (simp only: of_nat_less_iff)
  have "real r < real 10" using r(1) assms(5) by (simp add: field_simps)
  then have r10: "r < 10" by (simp only: of_nat_less_iff)
  have "\<bar>x - (50 + real c * 180)\<bar> \<le> 90" using c by (simp add: abs_le_iff field_simps)
  moreover have "\<bar>y - (50 + real r * 110)\<bar> \<le> 55" using r by (simp add: abs_le_iff field_simps)
  ultimately have "overlaps fp x y (grid_point fp r c)"
    by (intro near_grid_overlaps[OF f r10 c8])
  then show ?thesis using grid_point_in_candidates[OF r10 c8] by blast
qed

lemma spiral_point_range:
  assumes f: "faithful fp" and "r \<le> 8"
  shows "50 \<le> xpos (spiral_point fp \<lparr> xpos = 300, ypos = 200 \<rparr> r k)"
    "xpos (spiral_point fp \<lparr> xpos = 300, ypos = 200 \<rparr> r k) \<le> 702"
    "50 \<le> ypos (spiral_point fp \<lparr> xpos = 300, ypos = 200 \<rparr> r k)"
    "ypos (spiral_point fp \<lparr> xpos = 300, ypos = 200 \<rparr> r k) \<le> 602"
proof -
  let ?c = "\<lparr> xpos = 300, ypos = 200 \<rparr>"
  let ?t = "fdiv fp (fmul fp (real (45 * k)) (Math_PI fp)) 180"
  have r: "0 \<le> real (50 * r)" "real (50 * r) \<le> 400" using assms by simp_all
  then have rb: "\<bar>real (50 * r)\<bar> \<le> 4096" by simp
  have bound: "\<bar>fmul fp (real (50 * r)) v\<bar> \<le> 401" if v: "\<bar>v\<bar> \<le> 1" for v
  proof -
    define m where "m = real (50 * r)"
    have m: "0 \<le> m" "m \<le> 400" "\<bar>m\<bar> \<le> 4096" using r by (simp_all add: m_def)
    have "\<bar>m * v\<bar> = m * \<bar>v\<bar>" using m(1) by (simp add: abs_mult)
    also have "\<dots> \<le> 400 * 1" using m v by (intro mult_mono) simp_all
    finally have a: "\<bar>m * v\<bar> \<le> 400" by simp
    have b: "\<bar>fmul fp m v - m * v\<bar> \<le> 1" using faithful_mul[OF f m(3) v] .
    have "\<bar>fmul fp m v\<bar> \<le> 401" using a b by linarith
    then show ?thesis by (simp only: m_def)
  qed
  have sum: "fadd fp c0 z \<le> c0 + 402" if c0: "0 \<le> c0" "c0 \<le> 300" and z: "\<bar>z\<bar> \<le> 401" for c0 z
    using faithful_add[OF f, of c0 z] c0 z by (simp add: abs_le_iff)
  show "50 \<le> xpos (spiral_point fp ?c r k)" "50 \<le> ypos (spiral_point fp ?c r k)"
    by (simp_all add: spiral_point_def)
  show "xpos (spiral_point fp ?c r k) \<le> 702"
    using sum[of 300, OF _ _ bound[OF faithful_trig(1)[OF f, of ?t]]]
    by (simp add: spiral_point_def)
  show "ypos (spiral_point fp ?c r k) \<le> 602"
    using sum[of 200, OF _ _ bound[OF faithful_trig(2)[OF f, of ?t]]]
    by (simp add: spiral_point_def)
qed

lemma full_grid_blocks_search:
  assumes f: "faithful fp" and "c \<in> set (search_order fp None None)"
  shows "\<not> free_at fp (grid_candidates fp) [] c"
proof -
  have "\<exists>g \<in> set (grid_candidates fp). overlaps fp (xpos c) (ypos c) g"
  proof -
    consider "c = \<lparr> xpos = 100, ypos = 100 \<rparr>" | "c \<in> set (grid_candidates fp)"
      | "c \<in> set (spiral_candidates fp \<lparr> xpos = 300, ypos = 200 \<rparr>)"
      using assms(2) by (auto simp: search_order_def preferred_point_def spiral_centre_def)
    then show ?thesis
    proof cases
      case 1
      then show ?thesis using grid_blocks[OF f, of 100 100] by simp
    next
      case 2
      then obtain row col where g: "c = grid_point fp row col" "row < 10" "col < 8"
        by (auto simp: grid_candidates_def)
      have "overlaps fp (xpos c) (ypos c) (grid_point fp row col)"
        using g by (intro near_grid_overlaps[OF f]) (simp_all add: grid_point_faithful[OF f])
      then have "overlaps fp (xpos c) (ypos c) c" using g(1) by simp
      then show ?thesis using 2 by blast
    next
      case 3
      then obtain r k where "c = spiral_point fp \<lparr> xpos = 300, ypos = 200 \<rparr> r k" "r \<le> 8"
        by (auto simp: spiral_candidates_def)
      then show ?thesis
        using spiral_point_range[OF f, of r k] grid_blocks[OF f, of "xpos c" "ypos c"] by simp
    qed
  qed
  then show ?thesis by (simp add: free_at_def isPositionFree_def Let_def list_ex_iff)
qed

lemma full_grid_last_resort:
  assumes f: "faithful fp"
  shows "findFreePosition fp (grid_candidates fp) [] 0 0 None None = \<lparr> xpos = 100, ypos = 100 \<rparr>"
proof -
  have "find (free_at fp (grid_candidates fp) []) (search_order fp None None) = None"
    using full_grid_blocks_search[OF f] by (simp add: find_None_iff)
  moreover have "fmul fp 0 200 = 0" using faithful_int(2)[OF f, of 0 200] by simp
  moreover have "fadd fp 100 0 = 100" using faithful_int(1)[OF f, of 100 0] by simp
  ultimately show ?thesis
    by (simp add: findFreePosition_find random_offset_def preferred_point_def)
qed

subsection \<open>Spacing of placed nodes\<close>

lemma arranged_apart:
  assumes "i < length ns" "j < length ns" "i \<noteq> j"
    and "\<not> unsettled_pair ns i j" "\<not> unsettled_pair ns j i"
  shows "gap_ok (position (arrangeNodesIntelligently ns ! i)) (position (arrangeNodesIntelligently ns ! j))
       \<and> expanded_rect (position (arrangeNodesIntelligently ns ! i))
          \<inter> expanded_rect (position (arrangeNodesIntelligently ns ! j)) = {}"
proof -
  have "step_apart (arranged_position ns i) (arranged_position ns j)"
    using assms by (intro arranged_gap)
  then show ?thesis
    using assms(1,2) by (simp add: arrange_position step_apart_gap step_apart_rects)
qed

text \<open>
  The case left open is no wider than the code makes it: in an unsettled pair the two
  nodes are put in the same row, 40 or 140 pixels apart.
\<close>

lemma first_locked_rank:
  assumes "j < length ns" and "first_locked ns j"
  shows "rank (band_compliance ns) j = 0"
proof -
  have "\<not> band_compliance ns i" if "i < j" for i
  proof -
    have "take j ns ! i \<in> set (take j ns)" using that assms(1) by (intro nth_mem) simp
    then have "ns ! i \<in> set (take j ns)" using that by simp
    then show ?thesis
      using assms(2) by (auto simp: first_locked_def band_compliance_def list_all_iff)
  qed
  then have "filter (band_compliance ns) [0..<j] = []" by (auto simp: filter_empty_conv)
  then show ?thesis by (simp add: rank_def)
qed

lemma unsettled_pair_overlaps:
  assumes i: "i < length ns" and j: "j < length ns" and u: "unsettled_pair ns i j"
  shows "\<not> gap_ok (position (arrangeNodesIntelligently ns ! i))
                  (position (arrangeNodesIntelligently ns ! j))"
proof -
  have t: "band_trigger ns i" "\<not> band_compliance ns i"
    using u by (simp_all add: unsettled_pair_def trigger_row_def band_trigger_def band_compliance_def)
  then have n: "\<not> band_output ns i" "\<not> band_other ns i" "\<not> band_action ns i"
    by (auto simp: band_trigger_def band_output_def band_other_def band_action_def)
  have pi: "arranged_position ns i = \<lparr> xpos = 50 + real (rank (band_trigger ns) i) * 180, ypos = 50 \<rparr>"
    using t n by (simp add: arranged_position_def)
  have c: "band_compliance ns j" "first_locked ns j"
    using u by (simp_all add: unsettled_pair_def first_locked_def band_compliance_def)
  have pj: "arranged_position ns j = \<lparr> xpos = complianceStartX ns, ypos = 50 \<rparr>"
    using C_facts[OF c(1)] first_locked_rank[OF j c(2)] by simp
  have x: "complianceStartX ns = 50 + real (widest ns) * 180 + 40"
    by (simp add: complianceStartX_def widest_def spacing_defs)
  have k: "rank (band_trigger ns) i = widest ns \<or> rank (band_trigger ns) i = Suc (widest ns)"
    using u by (simp add: unsettled_pair_def)
  then have "\<not> gap_ok (arranged_position ns i) (arranged_position ns j)"
    unfolding pi pj x by (auto simp: gap_ok_def nodeWidth_def nodeHeight_def minSpacing_def)
  then show ?thesis using i j by (simp add: arrange_position)
qed

text \<open>
  C1, as the code has it, with footprint 150 x 80 and \<open>minSpacing\<close> 10. Incremental
  placement: whenever some candidate of the search order is accepted, the position
  \<open>findFreePosition\<close> returns keeps an edge-to-edge gap of at least \<open>minSpacing\<close>, in at
  least one axis, to every placed and pending position (the edges as the platform adds
  them up). Full rearrangement: every two nodes are left with such a gap, and their
  rectangles expanded by the spacing are disjoint, one case apart, of which nothing is
  stated: the first locked node of the list against an unlocked trigger whose index in
  the trigger row is \<open>widest\<close> or \<open>widest + 1\<close>. A list with at most \<open>widest\<close>
  triggers (two triggers or fewer, for one) has no such pair.
\<close>

theorem layout_keeps_spacing:
  "((\<exists>c \<in> set (search_order fp preferredX preferredY). free_at fp allPositions pendingPositions c) \<longrightarrow>
      (\<forall>q \<in> set (allPositions @ pendingPositions).
         spaced fp (findFreePosition fp allPositions pendingPositions random1 random2 preferredX preferredY) q))
   \<and> (\<forall>i j. i < length newNodes \<and> j < length newNodes \<and> i \<noteq> j
          \<and> \<not> unsettled_pair newNodes i j \<and> \<not> unsettled_pair newNodes j i \<longrightarrow>
          gap_ok (position (arrangeNodesIntelligently newNodes ! i))
                 (position (arrangeNodesIntelligently newNodes ! j))
          \<and> expanded_rect (position (arrangeNodesIntelligently newNodes ! i))
             \<inter> expanded_rect (position (arrangeNodesIntelligently newNodes ! j)) = {})
   \<and> (length (triggers newNodes) \<le> widest newNodes \<longrightarrow>
        (\<forall>i j. i < length newNodes \<and> j < length newNodes \<and> i \<noteq> j \<longrightarrow>
           gap_ok (position (arrangeNodesIntelligently newNodes ! i))
                  (position (arrangeNodesIntelligently newNodes ! j))
           \<and> expanded_rect (position (arrangeNodesIntelligently newNodes ! i))
              \<inter> expanded_rect (position (arrangeNodesIntelligently newNodes ! j)) = {}))"
proof (intro conjI)
  show "(\<exists>c \<in> set (search_order fp preferredX preferredY). free_at fp allPositions pendingPositions c) \<longrightarrow>
      (\<forall>q \<in> set (allPositions @ pendingPositions).
         spaced fp (findFreePosition fp allPositions pendingPositions random1 random2 preferredX preferredY) q)"
  proof
    assume "\<exists>c \<in> set (search_order fp preferredX preferredY). free_at fp allPositions pendingPositions c"
    then have "free_at fp allPositions pendingPositions
               (findFreePosition fp allPositions pendingPositions random1 random2 preferredX preferredY)"
      by (rule findFreePosition_free)
    then show "\<forall>q \<in> set (allPositions @ pendingPositions).
         spaced fp (findFreePosition fp allPositions pendingPositions random1 random2 preferredX preferredY) q"
      by (simp only: free_at_iff_spaced)
  qed
  show "\<forall>i j. i < length newNodes \<and> j < length newNodes \<and> i \<noteq> j
          \<and> \<not> unsettled_pair newNodes i j \<and> \<not> unsettled_pair newNodes j i \<longrightarrow>
          gap_ok (position (arrangeNodesIntelligently newNodes ! i))
                 (position (arrangeNodesIntelligently newNodes ! j))
          \<and> expanded_rect (position (arrangeNodesIntelligently newNodes ! i))
             \<inter> expanded_rect (position (arrangeNodesIntelligently newNodes ! j)) = {}"
    using arranged_apart[of _ newNodes] by blast
  show "length (triggers newNodes) \<le> widest newNodes \<longrightarrow>
        (\<forall>i j. i < length newNodes \<and> j < length newNodes \<and> i \<noteq> j \<longrightarrow>
           gap_ok (position (arrangeNodesIntelligently newNodes ! i))
                  (position (arrangeNodesIntelligently newNodes ! j))
           \<and> expanded_rect (position (arrangeNodesIntelligently newNodes ! i))
              \<inter> expanded_rect (position (arrangeNodesIntelligently newNodes ! j)) = {})"
    using arranged_apart[of _ newNodes] few_triggers_settled[of _ newNodes] by blast
qed

lemma ceil_sqrt_0: "ceil_sqrt 0 = 0"
  by (simp add: ceil_sqrt_def ceil_sqrt_from.simps)

lemma upt4: "[0..<4] = [0, 1, 2, 3]" by (simp add: upt_rec)
lemma upt3: "[0..<3] = [0, 1, 2]" by (simp add: upt_rec)
lemma upt2: "[0..<2] = [0, 1]" by (simp add: upt_rec)

theorem layout_keeps_spacing_witness:
  "spaced exact_arith
     (findFreePosition exact_arith [\<lparr> xpos = 100, ypos = 100 \<rparr>] [] (1/2) (1/2) None None)
     \<lparr> xpos = 100, ypos = 100 \<rparr>
   \<and> trigger_row ex_finance 0 \<and> first_locked ex_finance 1
   \<and> gap_ok (position (arrangeNodesIntelligently ex_finance ! 0))
             (position (arrangeNodesIntelligently ex_finance ! 1))
   \<and> length (triggers ex_finance) \<le> widest ex_finance
   \<and> gap_ok (position (arrangeNodesIntelligently ex_finance ! 2))
             (position (arrangeNodesIntelligently ex_finance ! 3))
   \<and> expanded_rect (position (arrangeNodesIntelligently ex_finance ! 2))
      \<inter> expanded_rect (position (arrangeNodesIntelligently ex_finance ! 3)) = {}"
proof -
  have "free_at exact_arith [\<lparr> xpos = 100, ypos = 100 \<rparr>] [] \<lparr> xpos = 410, ypos = 50 \<rparr>"
    "\<lparr> xpos = 410, ypos = 50 \<rparr> \<in> set (search_order exact_arith None None)"
    using find_grid_first by (auto simp: find_Some_iff)
  then have a: "\<exists>c \<in> set (search_order exact_arith None None).
                  free_at exact_arith [\<lparr> xpos = 100, ypos = 100 \<rparr>] [] c"
    by blast
  have l: "length ex_finance = 4" by (simp add: ex_finance_def)
  have tr: "trigger_row ex_finance 0" "first_locked ex_finance 1"
    by (simp_all add: ex_finance_def mk_node_def trigger_row_def first_locked_def)
  have r0: "rank (band_trigger ex_finance) 0 = 0" by (simp add: rank_def)
  have nt: "\<not> trigger_row ex_finance 1"
    by (simp add: ex_finance_def mk_node_def trigger_row_def)
  have u: "\<not> unsettled_pair ex_finance 0 1" "\<not> unsettled_pair ex_finance 1 0"
    using widest_ge[of ex_finance] r0 nt by (simp_all add: unsettled_pair_def)
  have b: "0 < length ex_finance \<and> 1 < length ex_finance \<and> (0::nat) \<noteq> 1
          \<and> \<not> unsettled_pair ex_finance 0 1 \<and> \<not> unsettled_pair ex_finance 1 0"
    using u l by simp
  have t: "triggers ex_finance = [0]"
    by (simp add: triggers_def l upt4 ex_finance_def mk_node_def)
  have w: "length (triggers ex_finance) \<le> widest ex_finance"
    using widest_ge[of ex_finance] by (simp add: t)
  have c: "2 < length ex_finance \<and> 3 < length ex_finance \<and> (2::nat) \<noteq> 3" using l by simp
  note T = layout_keeps_spacing[of exact_arith None None "[\<lparr> xpos = 100, ypos = 100 \<rparr>]" "[]" "1/2" "1/2"
      ex_finance]
  have 1: "spaced exact_arith
     (findFreePosition exact_arith [\<lparr> xpos = 100, ypos = 100 \<rparr>] [] (1/2) (1/2) None None)
     \<lparr> xpos = 100, ypos = 100 \<rparr>"
    using T[THEN conjunct1, THEN mp, OF a] by simp
  have 2: "gap_ok (position (arrangeNodesIntelligently ex_finance ! 0))
             (position (arrangeNodesIntelligently ex_finance ! 1))"
    using T[THEN conjunct2, THEN conjunct1, THEN spec, THEN spec, THEN mp, OF b, THEN conjunct1] .
  have 3: "gap_ok (position (arrangeNodesIntelligently ex_finance ! 2))
             (position (arrangeNodesIntelligently ex_finance ! 3))
       \<and> expanded_rect (position (arrangeNodesIntelligently ex_finance ! 2))
          \<inter> expanded_rect (position (arrangeNodesIntelligently ex_finance ! 3)) = {}"
    using T[THEN conjunct2, THEN conjunct2, THEN mp, OF w, THEN spec, THEN spec, THEN mp, OF c] .
  show ?thesis using 1 tr 2 w 3 by (intro conjI) simp_all
qed

text \<open>
  Placements that break the spacing. With a node on each of the eighty grid positions,
  every candidate of the search is blocked and the last resort (here with both random
  numbers 0) lands on \<open>(100, 100)\<close>, over the node at \<open>(50, 50)\<close>. A preferred
  coordinate 15 pixels beside a placed node is accepted, and the two rectangles
  expanded by the spacing intersect. With three unlocked triggers and one locked node,
  the third trigger is put at \<open>(410, 50)\<close> and the locked node at \<open>(450, 50)\<close>.
\<close>

theorem layout_overlap_counterexample:
  "grid_point exact_arith 0 0 = \<lparr> xpos = 50, ypos = 50 \<rparr>
   \<and> grid_point exact_arith 0 0 \<in> set (grid_candidates exact_arith)
   \<and> findFreePosition exact_arith (grid_candidates exact_arith) [] 0 0 None None
       = \<lparr> xpos = 100, ypos = 100 \<rparr>
   \<and> \<not> gap_ok (findFreePosition exact_arith (grid_candidates exact_arith) [] 0 0 None None)
               (grid_point exact_arith 0 0)
   \<and> (160, 0) \<in> expanded_rect (findFreePosition exact_arith [\<lparr> xpos = 0, ypos = 0 \<rparr>] [] 0 0 (Some 165) (Some 0))
                 \<inter> expanded_rect \<lparr> xpos = 0, ypos = 0 \<rparr>
   \<and> \<not> gap_ok (position (arrangeNodesIntelligently ex_row ! 2))
               (position (arrangeNodesIntelligently ex_row ! 3))"
proof (intro conjI)
  show "grid_point exact_arith 0 0 = \<lparr> xpos = 50, ypos = 50 \<rparr>"
    by (simp add: grid_point_exact)
  show "grid_point exact_arith 0 0 \<in> set (grid_candidates exact_arith)"
    by (rule grid_point_in_candidates) simp_all
  show f: "findFreePosition exact_arith (grid_candidates exact_arith) [] 0 0 None None
             = \<lparr> xpos = 100, ypos = 100 \<rparr>"
    using faithful_exact by (rule full_grid_last_resort)
  show "\<not> gap_ok (findFreePosition exact_arith (grid_candidates exact_arith) [] 0 0 None None)
               (grid_point exact_arith 0 0)"
    unfolding f by (simp add: gap_ok_def grid_point_exact nodeWidth_def nodeHeight_def minSpacing_def)
  have "isPositionFree exact_arith [\<lparr> xpos = 0, ypos = 0 \<rparr>] [] 165 0"
    by (simp add: isPositionFree_def overlaps_def Let_def exact_arith_def
        nodeWidth_def nodeHeight_def minSpacing_def)
  then have "findFreePosition exact_arith [\<lparr> xpos = 0, ypos = 0 \<rparr>] [] 0 0 (Some 165) (Some 0)
       = \<lparr> xpos = 165, ypos = 0 \<rparr>"
    by (simp add: findFreePosition_def Let_def nullish_def)
  then show "(160, 0) \<in> expanded_rect (findFreePosition exact_arith [\<lparr> xpos = 0, ypos = 0 \<rparr>] [] 0 0 (Some 165) (Some 0))
                 \<inter> expanded_rect \<lparr> xpos = 0, ypos = 0 \<rparr>"
    by (simp add: expanded_rect_def nodeWidth_def nodeHeight_def minSpacing_def)
  have l: "length ex_row = 4" by (simp add: ex_row_def)
  have o: "outputs ex_row = []" "actions ex_row = []" "others ex_row = []"
    by (simp_all add: outputs_def actions_def others_def triggers_def compliance_def l upt4
        ex_row_def mk_node_def)
  have cx: "complianceStartX ex_row = 450"
    by (simp add: complianceStartX_def actionsPerRow_def othersPerRow_def o ceil_sqrt_0 spacing_defs)
  have p2: "arranged_position ex_row 2 = \<lparr> xpos = 410, ypos = 50 \<rparr>"
    by (simp add: arranged_position_def band_compliance_def band_output_def band_other_def
        band_action_def band_trigger_def rank_def upt2 ex_row_def mk_node_def)
  have c3: "band_compliance ex_row 3"
    by (simp add: band_compliance_def ex_row_def mk_node_def)
  have r3: "rank (band_compliance ex_row) 3 = 0"
    by (simp add: rank_def upt3 band_compliance_def ex_row_def mk_node_def)
  have p3: "arranged_position ex_row 3 = \<lparr> xpos = 450, ypos = 50 \<rparr>"
    using C_facts[OF c3] r3 cx by simp
  show "\<not> gap_ok (position (arrangeNodesIntelligently ex_row ! 2))
               (position (arrangeNodesIntelligently ex_row ! 3))"
    by (simp add: arrange_position l p2 p3 gap_ok_def nodeWidth_def nodeHeight_def minSpacing_def)
qed

section \<open>Properties of the invariant enforcer\<close>

lemma splice_nodes: "g_nodes (splice cv new place g) = g_nodes g @ [new]"
  by (cases place rule: prod.exhaust)
    (auto simp: splice_def split: anchor_mode.splits option.splits)

lemma synthesize_satisfies: "matches_step s (synthesize cv g s) \<and> gn_locked (synthesize cv g s)"
  by (simp add: matches_step_def synthesize_def)

lemma satisfied_mono:
  "satisfied s g \<Longrightarrow> set (g_nodes g) \<subseteq> set (g_nodes g') \<Longrightarrow> satisfied s g'"
  by (auto simp: satisfied_def list_ex_iff)

lemma enforce_step_result:
  assumes "enforce_step cv s g = Inr (g', w)"
  shows "set (g_nodes g) \<subseteq> set (g_nodes g') \<and> satisfied s g'"
proof (cases "satisfied s g")
  case True
  then show ?thesis using assms by (simp add: enforce_step_def)
next
  case False
  obtain place warnings where r: "resolve_anchor s g = (place, warnings)"
    by (cases "resolve_anchor s g")
  have "g' = splice cv (synthesize cv g s) place g"
    using assms False r by (simp add: enforce_step_def Let_def split: list.splits)
  then have "g_nodes g' = g_nodes g @ [synthesize cv g s]"
    by (simp add: splice_nodes)
  then show ?thesis
    using synthesize_satisfies[of s cv g] by (auto simp: satisfied_def list_ex_iff)
qed

lemma enforce_result:
  "enforce cv ruleSet g = Inr (g', w) \<Longrightarrow>
   set (g_nodes g) \<subseteq> set (g_nodes g') \<and> (\<forall>s \<in> set ruleSet. satisfied s g')"
proof (induction ruleSet arbitrary: g w)
  case Nil
  then show ?case by simp
next
  case (Cons s ruleSet)
  from Cons.prems obtain g1 w1 w2 where
    s1: "enforce_step cv s g = Inr (g1, w1)" and s2: "enforce cv ruleSet g1 = Inr (g', w2)"
    by (auto split: sum.splits)
  from enforce_step_result[OF s1] have a: "set (g_nodes g) \<subseteq> set (g_nodes g1)" "satisfied s g1"
    by simp_all
  from Cons.IH[OF s2] have b: "set (g_nodes g1) \<subseteq> set (g_nodes g')" "\<forall>s \<in> set ruleSet. satisfied s g'"
    by simp_all
  show ?case using a b satisfied_mono[OF a(2) b(1)] by auto
qed

lemma enforce_when_satisfied:
  "\<forall>s \<in> set ruleSet. satisfied s g \<Longrightarrow> enforce cv ruleSet g = Inr (g, [])"
  by (induction ruleSet) (simp_all add: enforce_step_def)

text \<open>
  C4. The enforcer is idempotent: when \<open>enforce\<close> succeeds on a graph, enforcing its
  result again under the same rule set, whatever ids the conventions would hand out,
  returns that result unchanged and without warnings.
\<close>

theorem enforce_idempotent:
  assumes "enforce cv ruleSet g = Inr (g', w)"
  shows "enforce cv' ruleSet g' = Inr (g', [])"
  using enforce_result[OF assms] by (intro enforce_when_satisfied) simp

lemma ci_payment: "contains_ci ''Process Payment'' ''Payment''"
  unfolding contains_ci_def by code_simp
lemma ci_invoice: "\<not> contains_ci ''Invoice Received'' ''Payment''"
  unfolding contains_ci_def by code_simp
lemma ci_fraud: "\<not> contains_ci ''Fraud Risk Assessment'' ''Payment''"
  unfolding contains_ci_def by code_simp

lemma ex_enforce: "enforce ex_conventions ex_rules ex_graph = Inr (ex_enforced, [])"
  by (simp add: ex_rules_def ex_graph_def ex_enforced_def ex_conventions_def ex_invoice_def
      ex_process_def ex_fraud_node_def ex_audit_node_def enforce_step_def satisfied_def
      matches_step_def synthesize_def resolve_anchor_def splice_def link_def validate_def
      ci_payment ci_invoice ci_fraud Let_def)

theorem enforce_idempotent_witness:
  "enforce ex_conventions ex_rules ex_graph = Inr (ex_enforced, [])
   \<and> enforce ex_conventions ex_rules ex_enforced = Inr (ex_enforced, [])"
  using ex_enforce enforce_idempotent[OF ex_enforce, of ex_conventions] by simp

end
